theory Spec2Isabelle
  imports Main "HOL-Library.Sublist"
begin

section \<open>Strings as the JavaScript code uses them\<close>

text \<open>
  A JavaScript string is modelled as a \<open>string\<close>; a character stands for the code unit
  of the same number, so the model covers the code units below 256.
\<close>

definition is_space :: "char \<Rightarrow> bool" where
  \<comment> \<open>White space and line terminators of ECMAScript (\<open>trim\<close>, and \<open>\s\<close> in a regular
      expression): TAB, LF, VT, FF, CR, SPACE and NBSP among the code units below 256.\<close>
  "is_space c = (c \<in> set [CHR 0x09, CHR 0x0A, CHR 0x0B, CHR 0x0C, CHR 0x0D, CHR 0x20, CHR 0xA0])"

definition trim :: "string \<Rightarrow> string" where
  \<comment> \<open>\<open>String.prototype.trim\<close>\<close>
  "trim s = rev (dropWhile is_space (rev (dropWhile is_space s)))"

definition to_lower_char :: "char \<Rightarrow> char" where
  \<comment> \<open>A-Z, and the upper-case letters of Latin-1 (all of 0xC0-0xDE but the sign 0xD7).\<close>
  "to_lower_char c =
     (let n = of_char c :: nat in
      if (65 \<le> n \<and> n \<le> 90) \<or> (192 \<le> n \<and> n \<le> 222 \<and> n \<noteq> 215) then char_of (n + 32) else c)"

definition toLowerCase :: "string \<Rightarrow> string" where
  "toLowerCase s = map to_lower_char s"

definition str_includes :: "string \<Rightarrow> string \<Rightarrow> bool" where
  \<comment> \<open>\<open>s.includes(sub)\<close>: \<open>sub\<close> occurs in \<open>s\<close> as a contiguous run.\<close>
  "str_includes s sub = sublist sub s"

section \<open>The diagram viewer (src/components/PlantUMLViewer.jsx)\<close>

definition PLANTUML_SERVER :: string where
  "PLANTUML_SERVER = ''https://www.plantuml.com/plantuml''"

definition PLANTUML_SERVER_BACKUP :: string where
  "PLANTUML_SERVER_BACKUP = ''https://plantuml-server.kkeisuke.dev/svg''"

text \<open>
  \<open>plantumlEncoder.encode\<close> comes from a package outside the repository. It is a
  parameter \<open>enc\<close> of the model: \<open>Inr\<close> the encoded text, \<open>Inl\<close> the message of the
  exception it throws.
\<close>

type_synonym encoder = "string \<Rightarrow> string + string"

text \<open>The state of the component that the effect writes (lines 10-13).\<close>

record viewer =
  loading :: bool
  error :: "string option"
  imageUrl :: string
  useFallback :: bool

definition initial :: viewer where
  "initial = \<lparr>loading = True, error = None, imageUrl = '''', useFallback = False\<rparr>"

definition delimit :: "string \<Rightarrow> string" where
  \<comment> \<open>lines 26-32; both tests read the original \<open>content\<close>\<close>
  "delimit content =
     (let processedContent = content;
          processedContent = (if \<not> str_includes content ''@startuml''
                              then ''@startuml'' @ [CHR 0x0A] @ processedContent
                              else processedContent);
          processedContent = (if \<not> str_includes content ''@enduml''
                              then processedContent @ [CHR 0x0A] @ ''@enduml''
                              else processedContent)
      in processedContent)"

datatype diagramType = Usecase | Sequence | Activity | Component | Class

definition classify :: "string \<Rightarrow> diagramType" where
  \<comment> \<open>lines 70-79\<close>
  "classify originalContent =
     (let lc = toLowerCase originalContent in
      if str_includes lc ''actor'' \<or> str_includes lc ''usecase'' then Usecase
      else if str_includes lc ''participant'' \<or> str_includes lc ''->'' then Sequence
      else if str_includes lc ''start'' \<and> str_includes lc ''stop'' then Activity
      else if str_includes lc ''component'' then Component
      else Class)"

definition unlines :: "string list \<Rightarrow> string" where
  \<comment> \<open>the lines of a template literal, each ended by LF\<close>
  "unlines ls = concat (map (\<lambda>l. l @ [CHR 0x0A]) ls)"

fun template :: "diagramType \<Rightarrow> string" where
  \<comment> \<open>lines 87-149: the text each case appends; every literal starts with an empty line\<close>
  "template Usecase = unlines
     ['''',
      ''actor User'',
      ''actor Admin'',
      ''rectangle System {'',
      ''  usecase '' @ [CHR 0x22] @ ''Use Case 1'' @ [CHR 0x22],
      ''  usecase '' @ [CHR 0x22] @ ''Use Case 2'' @ [CHR 0x22],
      ''}'',
      ''User --> (Use Case 1)'',
      ''Admin --> (Use Case 2)'']"
| "template Sequence = unlines
     ['''',
      ''participant User'',
      ''participant System'',
      ''participant Database'',
      ''User -> System: Request'',
      ''System -> Database: Query'',
      ''Database --> System: Response'',
      ''System --> User: Result'']"
| "template Activity = unlines
     ['''',
      ''start'',
      '':Process Task;'',
      ''if (Condition) then (yes)'',
      ''  :Task A;'',
      ''else (no)'',
      ''  :Task B;'',
      ''endif'',
      '':Final Task;'',
      ''stop'']"
| "template Component = unlines
     ['''',
      ''package '' @ [CHR 0x22] @ ''Frontend'' @ [CHR 0x22] @ '' {'',
      ''  [UI Components]'',
      ''}'',
      ''package '' @ [CHR 0x22] @ ''Backend'' @ [CHR 0x22] @ '' {'',
      ''  [API]'',
      ''  [Database]'',
      ''}'',
      ''[UI Components] --> [API]'',
      ''[API] --> [Database]'']"
| "template Class = unlines
     ['''',
      ''class User {'',
      ''  +username: String'',
      ''  +email: String'',
      ''  +login()'',
      ''}'',
      ''class System {'',
      ''  +processRequest()'',
      ''}'',
      ''User -- System'']"

definition title_or_default :: "string option \<Rightarrow> string" where
  \<comment> \<open>\<open>title || 'UML Diagram'\<close>: an absent or empty title is falsy\<close>
  "title_or_default title =
     (case title of None \<Rightarrow> ''UML Diagram'' | Some t \<Rightarrow> if t = [] then ''UML Diagram'' else t)"

definition simplifyUml :: "string option \<Rightarrow> string \<Rightarrow> string" where
  \<comment> \<open>lines 68-153; \<open>title\<close> is the component's property\<close>
  "simplifyUml title originalContent =
     (let diagramType = classify originalContent;
          minimal = unlines [''@startuml'', ''title '' @ title_or_default title];
          minimal = minimal @ template diagramType;
          minimal = minimal @ [CHR 0x0A] @ ''@enduml''
      in minimal)"

definition primary :: "encoder \<Rightarrow> string \<Rightarrow> string + string" where
  \<comment> \<open>the \<open>try\<close> block, lines 16-46: \<open>Inl\<close> the message of the error thrown, \<open>Inr\<close> the
      URL handed to \<open>setImageUrl\<close>\<close>
  "primary enc content =
     (if content = [] \<or> length (trim content) = 0 then Inl ''Empty PlantUML content''
      else case enc (delimit content) of
             Inl msg \<Rightarrow> Inl msg
           | Inr encoded \<Rightarrow> Inr (PLANTUML_SERVER @ ''/svg/'' @ encoded))"

definition fallback :: "encoder \<Rightarrow> string option \<Rightarrow> string \<Rightarrow> viewer \<Rightarrow> viewer" where
  \<comment> \<open>the inner \<open>try\<close>/\<open>catch\<close>, lines 53-63: \<open>setUseFallback\<close> runs first; an error of the
      encoder is logged and nothing else is written\<close>
  "fallback enc title content st =
     (let st = st\<lparr>useFallback := True\<rparr>;
          fallbackContent = simplifyUml title content
      in case enc fallbackContent of
           Inl fallbackErr \<Rightarrow> st
         | Inr fallbackEncoded \<Rightarrow>
             st\<lparr>imageUrl := PLANTUML_SERVER_BACKUP @ ''/'' @ fallbackEncoded\<rparr>)"

definition resolve :: "encoder \<Rightarrow> string option \<Rightarrow> string \<Rightarrow> viewer" where
  \<comment> \<open>the effect, lines 15-65, run on the initial state\<close>
  "resolve enc title content =
     (case primary enc content of
        Inr url \<Rightarrow> initial\<lparr>imageUrl := url, loading := False\<rparr>
      | Inl msg \<Rightarrow>
          fallback enc title content
            (initial\<lparr>error := Some (''Failed to generate diagram: '' @ msg), loading := False\<rparr>))"

definition host_char :: "char \<Rightarrow> bool" where
  "host_char c = (c \<in> set ''abcdefghijklmnopqrstuvwxyzABCDEFGHIJKLMNOPQRSTUVWXYZ0123456789-.'')"

definition payload_char :: "char \<Rightarrow> bool" where
  \<comment> \<open>the unreserved characters of a URL, which a path segment takes as they are\<close>
  "payload_char c = (c \<in> set ''abcdefghijklmnopqrstuvwxyzABCDEFGHIJKLMNOPQRSTUVWXYZ0123456789-._~'')"

definition path_char :: "char \<Rightarrow> bool" where
  "path_char c = (payload_char c \<or> c = CHR ''/'')"

definition well_formed_url :: "string \<Rightarrow> bool" where
  \<comment> \<open>an absolute URL: the scheme, a host that is not empty, a path\<close>
  "well_formed_url u =
     (let r = drop 8 u; host = takeWhile (\<lambda>c. c \<noteq> CHR ''/'') r; path = dropWhile (\<lambda>c. c \<noteq> CHR ''/'') r
      in take 8 u = ''https://'' \<and> host \<noteq> [] \<and> list_all host_char host
         \<and> path \<noteq> [] \<and> list_all path_char path)"

definition failing_encoder :: encoder where
  \<comment> \<open>an encoder that throws on every text\<close>
  "failing_encoder s = Inl ''encode failed''"

fun hex_digit :: "nat \<Rightarrow> char" where
  "hex_digit n = (''0123456789ABCDEF'') ! (n mod 16)"

definition hex_encoder :: encoder where
  \<comment> \<open>an encoder that never throws and writes unreserved characters only: two hexadecimal
      digits for each code unit\<close>
  "hex_encoder s = Inr (concat (map (\<lambda>c. [hex_digit (of_char c div 16), hex_digit (of_char c)]) s))"

definition ascii_hex_encoder :: encoder where
  \<comment> \<open>an encoder that throws on a code unit outside ASCII and otherwise writes two
      hexadecimal digits for each code unit\<close>
  "ascii_hex_encoder s =
     (if list_all (\<lambda>c. (of_char c :: nat) < 128) s then hex_encoder s
      else Inl ''character out of range'')"

section \<open>Regular expressions of JavaScript, by backtracking\<close>

text \<open>
  The patterns of \<open>api.js\<close> are written as terms of \<open>rx\<close>. A match state is the
  captures so far and the text still to read. \<open>rx_match r st\<close> lists every way \<open>r\<close> matches a
  prefix of the text of \<open>st\<close>, in the order in which a backtracking matcher tries them:
  the head of the list is the match that ECMAScript reports.
\<close>

datatype rx =
    Chr "char \<Rightarrow> bool"    \<comment> \<open>one character of a class\<close>
  | Eps                    \<comment> \<open>the empty pattern\<close>
  | Seq rx rx
  | Alt rx rx              \<comment> \<open>\<open>a|b\<close>: \<open>a\<close> is tried first\<close>
  | Star rx                \<comment> \<open>\<open>a*\<close>, greedy\<close>
  | Group nat rx           \<comment> \<open>the capturing group of that number\<close>
  | Eos                    \<comment> \<open>\<open>$\<close> without the \<open>m\<close> flag: the end of the text\<close>

type_synonym captures = "nat \<Rightarrow> string option"
type_synonym mstate = "captures \<times> string"

fun star :: "(mstate \<Rightarrow> mstate list) \<Rightarrow> nat \<Rightarrow> mstate \<Rightarrow> mstate list" where
  \<comment> \<open>Greedy iteration: one more round of the body first, no further round last. A round
      that reads nothing fails, as in ECMAScript. The counter is the length of the text,
      which bounds the rounds since each reads at least one character.\<close>
  "star f 0 st = [st]"
| "star f (Suc n) st =
     concat (map (\<lambda>st'. if length (snd st') < length (snd st) then star f n st' else []) (f st))
     @ [st]"

primrec rx_match :: "rx \<Rightarrow> mstate \<Rightarrow> mstate list" where
  "rx_match (Chr P) = (\<lambda>(c, s). case s of [] \<Rightarrow> [] | x # xs \<Rightarrow> if P x then [(c, xs)] else [])"
| "rx_match Eps = (\<lambda>st. [st])"
| "rx_match (Seq a b) = (\<lambda>st. concat (map (rx_match b) (rx_match a st)))"
| "rx_match (Alt a b) = (\<lambda>st. rx_match a st @ rx_match b st)"
| "rx_match (Star a) = (\<lambda>st. star (rx_match a) (length (snd st)) st)"
| "rx_match (Group n a) =
     (\<lambda>(c, s). map (\<lambda>(c', s'). (c'(n \<mapsto> take (length s - length s') s), s')) (rx_match a (c, s)))"
| "rx_match Eos = (\<lambda>(c, s). if s = [] then [(c, s)] else [])"

definition exec_at :: "rx \<Rightarrow> string \<Rightarrow> (captures \<times> string) option" where
  \<comment> \<open>the match that starts at the head of \<open>s\<close>, if any: its captures and the text after it\<close>
  "exec_at r s = (case rx_match r (Map.empty, s) of [] \<Rightarrow> None | st # _ \<Rightarrow> Some st)"

text \<open>Patterns are built from these.\<close>

definition chr :: "char \<Rightarrow> rx" where
  "chr x = Chr (\<lambda>c. c = x)"

definition one_of :: "string \<Rightarrow> rx" where
  \<comment> \<open>\<open>[...]\<close>\<close>
  "one_of cs = Chr (\<lambda>c. c \<in> set cs)"

definition none_of :: "string \<Rightarrow> rx" where
  \<comment> \<open>\<open>[^...]\<close>\<close>
  "none_of cs = Chr (\<lambda>c. c \<notin> set cs)"

definition space :: rx where
  \<comment> \<open>\<open>\s\<close>\<close>
  "space = Chr is_space"

definition word :: rx where
  \<comment> \<open>\<open>[a-zA-Z0-9_]\<close>\<close>
  "word = one_of ''abcdefghijklmnopqrstuvwxyzABCDEFGHIJKLMNOPQRSTUVWXYZ0123456789_''"

fun lit :: "string \<Rightarrow> rx" where
  "lit [] = Eps"
| "lit (x # xs) = Seq (chr x) (lit xs)"

definition opt :: "rx \<Rightarrow> rx" where
  \<comment> \<open>\<open>a?\<close>\<close>
  "opt a = Alt a Eps"

definition plus :: "rx \<Rightarrow> rx" where
  \<comment> \<open>\<open>a+\<close>\<close>
  "plus a = Seq a (Star a)"

fun seqs :: "rx list \<Rightarrow> rx" where
  "seqs [] = Eps"
| "seqs (a # as) = Seq a (seqs as)"

text \<open>
  A replacement string: literal text and references \<open>$n\<close> to a capture. A group that
  took no part in the match is replaced by the empty string.
\<close>

datatype piece = Txt string | Ref nat

fun expand :: "piece list \<Rightarrow> captures \<Rightarrow> string" where
  "expand [] c = []"
| "expand (Txt t # ps) c = t @ expand ps c"
| "expand (Ref n # ps) c = (case c n of None \<Rightarrow> [] | Some g \<Rightarrow> g) @ expand ps c"

lemma star_shorter:
  assumes "\<And>st st'. st' \<in> set (f st) \<Longrightarrow> length (snd st') \<le> length (snd st)"
  shows "st' \<in> set (star f n st) \<Longrightarrow> length (snd st') \<le> length (snd st)"
proof (induction n arbitrary: st)
  case 0
  then show ?case by simp
next
  case (Suc n)
  from Suc.prems consider "st' = st"
    | st1 where "st1 \<in> set (f st)" "length (snd st1) < length (snd st)" "st' \<in> set (star f n st1)"
    by (auto split: if_splits)
  then show ?case
  proof cases
    case 1
    then show ?thesis by simp
  next
    case 2
    from Suc.IH [OF 2(3)] 2(2) show ?thesis by simp
  qed
qed

lemma rx_match_shorter: "st' \<in> set (rx_match r st) \<Longrightarrow> length (snd st') \<le> length (snd st)"
proof (induction r arbitrary: st st')
  case (Chr P)
  then show ?case by (cases st) (auto split: list.splits if_splits)
next
  case Eps
  then show ?case by simp
next
  case (Seq a b)
  from Seq.prems obtain st1 where "st1 \<in> set (rx_match a st)" "st' \<in> set (rx_match b st1)" by auto
  with Seq.IH show ?case by (meson order_trans)
next
  case (Alt a b)
  from Alt.prems have "st' \<in> set (rx_match a st) \<or> st' \<in> set (rx_match b st)" by simp
  then show ?case using Alt.IH by blast
next
  case (Star a)
  from Star.prems have "st' \<in> set (star (rx_match a) (length (snd st)) st)" by simp
  then show ?case by (rule star_shorter [rotated]) (rule Star.IH)
next
  case (Group n a)
  then show ?case by (cases st) fastforce
next
  case Eos
  then show ?case by (cases st) (auto split: if_splits)
qed

lemma exec_at_shorter: "exec_at r s = Some (c, rest) \<Longrightarrow> length rest \<le> length s"
proof -
  assume "exec_at r s = Some (c, rest)"
  then have "(c, rest) \<in> set (rx_match r (Map.empty, s))"
    by (auto simp: exec_at_def split: list.splits)
  from rx_match_shorter [OF this] show ?thesis by simp
qed

function replace_all :: "rx \<Rightarrow> piece list \<Rightarrow> string \<Rightarrow> string" where
  \<comment> \<open>\<open>s.replace(/r/g, t)\<close>: the matches are found from left to right, each search starts
      where the last match ended (one character further after an empty match), and the
      text between the matches is kept\<close>
  "replace_all r t s =
     (case exec_at r s of
        None \<Rightarrow> (case s of [] \<Rightarrow> [] | x # xs \<Rightarrow> x # replace_all r t xs)
      | Some (c, rest) \<Rightarrow>
          if length rest < length s then expand t c @ replace_all r t rest
          else (case s of [] \<Rightarrow> expand t c | x # xs \<Rightarrow> expand t c @ x # replace_all r t xs))"
  by pat_completeness auto
termination
  by (relation "measure (\<lambda>(r, t, s). length s)") auto

declare replace_all.simps [simp del]

function match_all :: "rx \<Rightarrow> string \<Rightarrow> string list" where
  \<comment> \<open>\<open>s.match(/r/g)\<close>: the matched texts, from left to right (\<open>null\<close> is the empty list)\<close>
  "match_all r s =
     (case exec_at r s of
        None \<Rightarrow> (case s of [] \<Rightarrow> [] | x # xs \<Rightarrow> match_all r xs)
      | Some (c, rest) \<Rightarrow>
          if length rest < length s then take (length s - length rest) s # match_all r rest
          else (case s of [] \<Rightarrow> [[]] | x # xs \<Rightarrow> [] # match_all r xs))"
  by pat_completeness auto
termination
  by (relation "measure (\<lambda>(r, s). length s)") auto

declare match_all.simps [simp del]

section \<open>The repair pass (server/api.js, lines 190-222)\<close>

abbreviation DQ :: char where "DQ \<equiv> CHR 0x22"
abbreviation SQ :: char where "SQ \<equiv> CHR 0x27"
abbreviation BQ :: char where "BQ \<equiv> CHR 0x60"
abbreviation LF :: char where "LF \<equiv> CHR 0x0A"

fun indexOf :: "string \<Rightarrow> char \<Rightarrow> nat option" where
  \<comment> \<open>\<open>s.indexOf(c)\<close>; \<open>None\<close> is -1\<close>
  "indexOf [] c = None"
| "indexOf (x # xs) c = (if x = c then Some 0 else map_option Suc (indexOf xs c))"

definition lastIndexOf :: "string \<Rightarrow> char \<Rightarrow> nat option" where
  "lastIndexOf s c = map_option (\<lambda>i. length s - 1 - i) (indexOf (rev s) c)"

definition slice :: "string \<Rightarrow> nat \<Rightarrow> nat \<Rightarrow> string" where
  \<comment> \<open>\<open>s.slice(a, b)\<close> for indices within the string: empty when \<open>b \<le> a\<close>\<close>
  "slice s a b = take (b - a) (drop a s)"

definition rx_tag :: rx where
  \<comment> \<open>\<open>/<[^>]+>/g\<close>\<close>
  "rx_tag = seqs [chr CHR ''<'', plus (none_of ''>''), chr CHR ''>'']"

definition rx_fence_json :: rx where
  \<comment> \<open>the pattern of three backquotes, \<open>json\<close> and \<open>\n?\<close>\<close>
  "rx_fence_json = seqs [lit [BQ, BQ, BQ], lit ''json'', opt (chr LF)]"

definition rx_fence :: rx where
  \<comment> \<open>the pattern of three backquotes and \<open>\n?\<close>\<close>
  "rx_fence = seqs [lit [BQ, BQ, BQ], opt (chr LF)]"

definition rx_key :: rx where
  \<comment> \<open>\<open>/(['"])?([a-zA-Z0-9_]+)(['"])?\s*:/g\<close>\<close>
  "rx_key = seqs [opt (Group 1 (one_of [SQ, DQ])), Group 2 (plus word),
                  opt (Group 3 (one_of [SQ, DQ])), Star space, chr CHR '':'']"

definition rx_single_quoted :: rx where
  \<comment> \<open>\<open>/:\s*'([^']*)'/g\<close>\<close>
  "rx_single_quoted = seqs [chr CHR '':'', Star space, chr SQ, Group 1 (Star (none_of [SQ])), chr SQ]"

definition rx_mismatched :: rx where
  \<comment> \<open>\<open>/:\s*"([^"]*)'/g\<close>\<close>
  "rx_mismatched = seqs [chr CHR '':'', Star space, chr DQ, Group 1 (Star (none_of [DQ])), chr SQ]"

definition rx_single_open :: rx where
  \<comment> \<open>\<open>/:\s*'([^"]*)/g\<close>\<close>
  "rx_single_open = seqs [chr CHR '':'', Star space, chr SQ, Group 1 (Star (none_of [DQ]))]"

definition rx_trailing_comma :: rx where
  \<comment> \<open>\<open>/,(\s*[}\]])/g\<close>\<close>
  "rx_trailing_comma = seqs [chr CHR '','', Group 1 (seqs [Star space, one_of ''}]''])]"

definition rx_trailing_comma_end :: rx where
  \<comment> \<open>\<open>/([}\]])\s*,\s*$/g\<close>\<close>
  "rx_trailing_comma_end = seqs [Group 1 (one_of ''}]''), Star space, chr CHR '','', Star space, Eos]"

definition rx_obj_obj :: rx where
  \<comment> \<open>\<open>/}\s*{/g\<close>\<close>
  "rx_obj_obj = seqs [chr CHR ''}'', Star space, chr CHR ''{'']"

definition rx_arr_obj :: rx where
  \<comment> \<open>\<open>/]\s*{/g\<close>\<close>
  "rx_arr_obj = seqs [chr CHR '']'', Star space, chr CHR ''{'']"

definition rx_obj_arr :: rx where
  \<comment> \<open>\<open>/}\s*\[/g\<close>\<close>
  "rx_obj_arr = seqs [chr CHR ''}'', Star space, chr CHR ''['']"

definition rx_arr_arr :: rx where
  \<comment> \<open>\<open>/]\s*\[/g\<close>\<close>
  "rx_arr_arr = seqs [chr CHR '']'', Star space, chr CHR ''['']"

definition rx_spaces :: rx where
  \<comment> \<open>\<open>/\s+/g\<close>\<close>
  "rx_spaces = plus space"

definition strip_markup :: "string \<Rightarrow> string" where
  \<comment> \<open>lines 192-193\<close>
  "strip_markup str =
     (let str = replace_all rx_tag [] str;
          str = replace_all rx_fence [] (replace_all rx_fence_json [] str)
      in str)"

definition truncate_braces :: "string \<Rightarrow> string" where
  \<comment> \<open>lines 196-201\<close>
  "truncate_braces str =
     (let firstBrace = indexOf str CHR ''{'';
          lastBrace = lastIndexOf str CHR ''}''
      in case (firstBrace, lastBrace) of
           (Some f, Some l) \<Rightarrow> slice str f (l + 1)
         | _ \<Rightarrow> str)"

definition fix_quotes :: "string \<Rightarrow> string" where
  \<comment> \<open>lines 206-209\<close>
  "fix_quotes str =
     (let str = replace_all rx_key [Txt [DQ], Ref 2, Txt [DQ], Txt '':''] str;
          str = replace_all rx_single_quoted [Txt '':'', Txt [DQ], Ref 1, Txt [DQ]] str;
          str = replace_all rx_mismatched [Txt '':'', Txt [DQ], Ref 1, Txt [DQ]] str;
          str = replace_all rx_single_open [Txt '':'', Txt [DQ], Ref 1, Txt [DQ]] str
      in str)"

definition fix_commas :: "string \<Rightarrow> string" where
  \<comment> \<open>lines 211-216\<close>
  "fix_commas str =
     (let str = replace_all rx_trailing_comma [Ref 1] str;
          str = replace_all rx_trailing_comma_end [Ref 1] str;
          str = replace_all rx_obj_obj [Txt ''},{''] str;
          str = replace_all rx_arr_obj [Txt '',{''] str;
          str = replace_all rx_obj_arr [Txt '',[''] str;
          str = replace_all rx_arr_arr [Txt '',[''] str
      in str)"

definition clean_whitespace :: "string \<Rightarrow> string" where
  \<comment> \<open>lines 218-219\<close>
  "clean_whitespace str = trim (replace_all rx_spaces [Txt '' ''] str)"

definition repairJSON :: "string \<Rightarrow> string" where
  "repairJSON str = clean_whitespace (fix_commas (fix_quotes (truncate_braces (strip_markup str))))"

text \<open>
  Two notions used to state what a stage leaves unchanged: a text in which a pattern
  matches at no position, and a text whose white space is single \<open>SPACE\<close> characters.
\<close>

fun no_match :: "rx \<Rightarrow> string \<Rightarrow> bool" where
  "no_match r [] = (exec_at r [] = None)"
| "no_match r (x # xs) = (exec_at r (x # xs) = None \<and> no_match r xs)"

fun single_spaced :: "string \<Rightarrow> bool" where
  "single_spaced [] = True"
| "single_spaced [x] = (is_space x \<longrightarrow> x = CHR '' '')"
| "single_spaced (x # y # zs) = ((is_space x \<longrightarrow> x = CHR '' '' \<and> \<not> is_space y) \<and> single_spaced (y # zs))"

section \<open>JSON values, \<open>JSON.parse\<close> and \<open>JSON.stringify\<close>\<close>

text \<open>
  \<open>JSON.parse\<close> and \<open>JSON.stringify\<close> belong to the language, not to the repository. The
  functions of \<open>api.js\<close> take them as parameters \<open>parse\<close> and \<open>stringify\<close>, and the
  theorems about those functions hold for every such pair. \<open>JSON_parse\<close> and
  \<open>JSON_stringify\<close> below are the instance used to run them on concrete texts: the
  grammar of ECMA-404 over the code units below 256, with numbers kept as the exact
  decimals \<open>m * 10 ^ e\<close> that were read, and the diagnostics worded as V8 words them
  (\<open>Unexpected token c in JSON at position n\<close>). The rounding of a decimal to the
  nearest double is modelled only where it leaves the finite range: a decimal of
  magnitude \<open>2^1024 - 2^970\<close> or more (half way between the largest double and
  \<open>2^1024\<close>) is the number \<open>Infinity\<close> or \<open>-Infinity\<close>, which \<open>JSON.stringify\<close> writes
  as \<open>null\<close>.
\<close>

datatype json =
    JNull
  | JBool bool
  | JNum int int          \<comment> \<open>\<open>JNum m e\<close> is \<open>m * 10 ^ e\<close>, with \<open>m\<close> not a multiple of 10, or \<open>JNum 0 0\<close>\<close>
  | JStr string
  | JArr "json list"
  | JObj "(string \<times> json) list"   \<comment> \<open>the own properties, in the order of enumeration\<close>

datatype tok =
    TLBrace | TRBrace | TLBrack | TRBrack | TColon | TComma
  | TStr string | TNum int int | TTrue | TFalse | TNull
  | TBad         \<comment> \<open>a character that starts no token (the scan stops there)\<close>
  | TEnd         \<comment> \<open>the text ended inside a token\<close>

datatype scan = Tok tok nat   \<comment> \<open>a token and the number of characters it takes\<close>
  | Bad nat                   \<comment> \<open>the offset of the offending character\<close>
  | Eof

definition is_digit :: "char \<Rightarrow> bool" where
  "is_digit c = (c \<in> set ''0123456789'')"

definition digit_val :: "char \<Rightarrow> int" where
  "digit_val c = of_char c - 48"

definition digits_val :: "string \<Rightarrow> int" where
  "digits_val ds = foldl (\<lambda>a d. 10 * a + digit_val d) 0 ds"

definition hex_val :: "char \<Rightarrow> nat option" where
  "hex_val c =
     (let n = of_char c :: nat in
      if 48 \<le> n \<and> n \<le> 57 then Some (n - 48)
      else if 65 \<le> n \<and> n \<le> 70 then Some (n - 55)
      else if 97 \<le> n \<and> n \<le> 102 then Some (n - 87)
      else None)"

definition unescape :: "char \<Rightarrow> char option" where
  \<comment> \<open>the character after a backslash\<close>
  "unescape e =
     (if e = CHR 0x22 then Some (CHR 0x22)
      else if e = CHR 0x5C then Some (CHR 0x5C)
      else if e = CHR ''/'' then Some (CHR ''/'')
      else if e = CHR ''b'' then Some (CHR 0x08)
      else if e = CHR ''f'' then Some (CHR 0x0C)
      else if e = CHR ''n'' then Some (CHR 0x0A)
      else if e = CHR ''r'' then Some (CHR 0x0D)
      else if e = CHR ''t'' then Some (CHR 0x09)
      else None)"

fun lex_str :: "string \<Rightarrow> nat \<Rightarrow> string \<Rightarrow> scan" where
  \<comment> \<open>the text after an opening quote; \<open>acc\<close> is the string read so far, reversed, and
      \<open>k\<close> the number of characters read. An escape \<open>\uXXXX\<close> of a code unit above 255
      is outside the model and is scanned as \<open>Bad\<close>.\<close>
  "lex_str acc k [] = Eof"
| "lex_str acc k (c # cs) =
     (if c = CHR 0x22 then Tok (TStr (rev acc)) (k + 1)
      else if c = CHR 0x5C then
        (case cs of
           [] \<Rightarrow> Eof
         | e # cs' \<Rightarrow>
             (case unescape e of
                Some ch \<Rightarrow> lex_str (ch # acc) (k + 2) cs'
              | None \<Rightarrow>
                  if e = CHR ''u'' then
                    (case cs' of
                       h1 # h2 # h3 # h4 # cs'' \<Rightarrow>
                         (case (hex_val h1, hex_val h2, hex_val h3, hex_val h4) of
                            (Some a, Some b, Some c, Some d) \<Rightarrow>
                              if a = 0 \<and> b = 0 then lex_str (char_of (16 * c + d) # acc) (k + 6) cs''
                              else Bad (k + 2)
                          | _ \<Rightarrow> Bad (k + 2))
                     | _ \<Rightarrow> Eof)
                  else Bad (k + 1)))
      else if (of_char c :: nat) < 32 then Bad k
      else lex_str (c # acc) (k + 1) cs)"

definition decimal :: "bool \<Rightarrow> string \<Rightarrow> string \<Rightarrow> int \<Rightarrow> tok" where
  \<comment> \<open>the number with that sign, those digits before and after the point and that
      exponent, as \<open>m * 10 ^ e\<close> with the trailing zeros of \<open>m\<close> moved into \<open>e\<close>\<close>
  "decimal neg ip fp ex =
     (let ds = ip @ fp;
          ds' = rev (dropWhile (\<lambda>d. d = CHR ''0'') (rev ds));
          m = digits_val ds'
      in if m = 0 then TNum 0 0
         else TNum (if neg then - m else m) (ex - int (length fp) + int (length ds - length ds')))"

definition lex_num :: "string \<Rightarrow> scan" where
  \<comment> \<open>\<open>-? (0 | [1-9][0-9]*) (. [0-9]+)? ([eE] [+-]? [0-9]+)?\<close>\<close>
  "lex_num s =
     (let neg = (take 1 s = ''-'');
          s1 = (if neg then drop 1 s else s);
          ip = (if take 1 s1 = ''0'' then ''0'' else takeWhile is_digit s1);
          s2 = drop (length ip) s1;
          has_fp = (take 1 s2 = ''.'');
          fp = (if has_fp then takeWhile is_digit (drop 1 s2) else []);
          s3 = (if has_fp then drop (1 + length fp) s2 else s2);
          has_ex = (take 1 s3 = ''e'' \<or> take 1 s3 = ''E'');
          s4 = (if has_ex then drop 1 s3 else s3);
          exneg = (take 1 s4 = ''-'');
          s5 = (if has_ex \<and> (exneg \<or> take 1 s4 = ''+'') then drop 1 s4 else s4);
          ed = (if has_ex then takeWhile is_digit s5 else []);
          s6 = drop (length ed) s5;
          missing = (\<lambda>t. if t = [] then Eof else Bad (length s - length t))
      in if ip = [] then missing s1
         else if has_fp \<and> fp = [] then missing (drop 1 s2)
         else if has_ex \<and> ed = [] then missing s5
         else Tok (decimal neg ip fp (if exneg then - digits_val ed else digits_val ed))
                  (length s - length s6))"

fun common :: "string \<Rightarrow> string \<Rightarrow> nat" where
  \<comment> \<open>the length of the longest common prefix\<close>
  "common (x # xs) (y # ys) = (if x = y then Suc (common xs ys) else 0)"
| "common _ _ = 0"

definition lex_word :: "string \<Rightarrow> tok \<Rightarrow> string \<Rightarrow> scan" where
  \<comment> \<open>one of the literals \<open>true\<close>, \<open>false\<close>, \<open>null\<close>\<close>
  "lex_word w t s =
     (let k = common w s in
      if k = length w then Tok t k else if k = length s then Eof else Bad k)"

function lex :: "nat \<Rightarrow> string \<Rightarrow> (nat \<times> tok) list" where
  \<comment> \<open>the tokens of a text with their positions; \<open>p\<close> is the position of the text's head\<close>
  "lex p [] = []"
| "lex p (c # cs) =
     (let after = (\<lambda>r. case r of
                     Tok t k \<Rightarrow> (p, t) # (if 0 < k then lex (p + k) (drop (k - 1) cs) else [])
                   | Bad off \<Rightarrow> [(p + off, TBad)]
                   | Eof \<Rightarrow> [(p + length (c # cs), TEnd)])
      in if c \<in> set [CHR '' '', CHR 0x09, CHR 0x0A, CHR 0x0D] then lex (p + 1) cs
         else if c = CHR ''{'' then after (Tok TLBrace 1)
         else if c = CHR ''}'' then after (Tok TRBrace 1)
         else if c = CHR ''['' then after (Tok TLBrack 1)
         else if c = CHR '']'' then after (Tok TRBrack 1)
         else if c = CHR '':'' then after (Tok TColon 1)
         else if c = CHR '','' then after (Tok TComma 1)
         else if c = CHR 0x22 then
           after (lex_str [] 1 cs)
         else if c = CHR ''-'' \<or> is_digit c then after (lex_num (c # cs))
         else if c = CHR ''t'' then after (lex_word ''true'' TTrue (c # cs))
         else if c = CHR ''f'' then after (lex_word ''false'' TFalse (c # cs))
         else if c = CHR ''n'' then after (lex_word ''null'' TNull (c # cs))
         else [(p, TBad)])"
  by pat_completeness auto
termination
  by (relation "measure (\<lambda>(p, s). length s)") auto

declare lex.simps [simp del]


datatype perr = Unexpected nat | UnexpectedEnd

definition unexpected :: "nat \<times> tok \<Rightarrow> perr" where
  "unexpected pt = (if snd pt = TEnd then UnexpectedEnd else Unexpected (fst pt))"

definition is_index :: "string \<Rightarrow> bool" where
  \<comment> \<open>an array index: a canonical numeral below \<open>2^32 - 1\<close>\<close>
  "is_index k = (k \<noteq> [] \<and> list_all is_digit k \<and> (k = ''0'' \<or> take 1 k \<noteq> ''0'')
                 \<and> digits_val k < 4294967295)"

fun insert_index :: "string \<Rightarrow> json \<Rightarrow> (string \<times> json) list \<Rightarrow> (string \<times> json) list" where
  "insert_index k v [] = [(k, v)]"
| "insert_index k v ((k', v') # props) =
     (if is_index k' \<and> digits_val k' < digits_val k then (k', v') # insert_index k v props
      else (k, v) # (k', v') # props)"

definition put :: "string \<Rightarrow> json \<Rightarrow> (string \<times> json) list \<Rightarrow> (string \<times> json) list" where
  \<comment> \<open>defining a property: a key already there keeps its place and takes the new value;
      a new key goes last, but array indices are enumerated first, in ascending order\<close>
  "put k v props =
     (if k \<in> set (map fst props) then map (\<lambda>(k', v'). if k' = k then (k', v) else (k', v')) props
      else if is_index k then insert_index k v props
      else props @ [(k, v)])"

function parse_value :: "(nat \<times> tok) list \<Rightarrow> perr + json \<times> (nat \<times> tok) list"
  and parse_elems :: "json list \<Rightarrow> (nat \<times> tok) list \<Rightarrow> perr + json \<times> (nat \<times> tok) list"
  and parse_members :: "(string \<times> json) list \<Rightarrow> (nat \<times> tok) list \<Rightarrow> perr + json \<times> (nat \<times> tok) list"
where
  "parse_value ts =
     (case ts of
        [] \<Rightarrow> Inl UnexpectedEnd
      | (p, t) # r \<Rightarrow>
          if t = TLBrack then
            (if map snd (take 1 r) = [TRBrack] then Inr (JArr [], drop 1 r) else parse_elems [] r)
          else if t = TLBrace then
            (if map snd (take 1 r) = [TRBrace] then Inr (JObj [], drop 1 r) else parse_members [] r)
          else
            (case t of
               TNull \<Rightarrow> Inr (JNull, r)
             | TTrue \<Rightarrow> Inr (JBool True, r)
             | TFalse \<Rightarrow> Inr (JBool False, r)
             | TNum m e \<Rightarrow> Inr (JNum m e, r)
             | TStr s \<Rightarrow> Inr (JStr s, r)
             | _ \<Rightarrow> Inl (unexpected (p, t))))"
| "parse_elems acc ts =
     (case parse_value ts of
        Inl e \<Rightarrow> Inl e
      | Inr (v, r) \<Rightarrow>
          if length r < length ts then
            (case r of
               [] \<Rightarrow> Inl UnexpectedEnd
             | (p, t) # r' \<Rightarrow>
                 if t = TComma then parse_elems (acc @ [v]) r'
                 else if t = TRBrack then Inr (JArr (acc @ [v]), r')
                 else Inl (unexpected (p, t)))
          else Inl UnexpectedEnd)"
| "parse_members acc ts =
     (case ts of
        [] \<Rightarrow> Inl UnexpectedEnd
      | (p, t) # ts' \<Rightarrow>
          (case t of
             TStr k \<Rightarrow>
               (case ts' of
                  [] \<Rightarrow> Inl UnexpectedEnd
                | (p', t') # r \<Rightarrow>
                    if t' = TColon then
                      (case parse_value r of
                         Inl e \<Rightarrow> Inl e
                       | Inr (v, r2) \<Rightarrow>
                           if length r2 < length r then
                             (case r2 of
                                [] \<Rightarrow> Inl UnexpectedEnd
                              | (p'', t'') # r' \<Rightarrow>
                                  if t'' = TComma then parse_members (put k v acc) r'
                                  else if t'' = TRBrace then Inr (JObj (put k v acc), r')
                                  else Inl (unexpected (p'', t'')))
                           else Inl UnexpectedEnd)
                    else Inl (unexpected (p', t')))
           | _ \<Rightarrow> Inl (unexpected (p, t))))"
  by pat_completeness auto
termination
  by (relation "measure (\<lambda>x. case x of
          Inl ts \<Rightarrow> 2 * length ts
        | Inr (Inl (acc, ts)) \<Rightarrow> 2 * length ts + 1
        | Inr (Inr (acc, ts)) \<Rightarrow> 2 * length ts + 1)") auto

declare parse_value.simps [simp del] parse_elems.simps [simp del] parse_members.simps [simp del]

function show_nat :: "nat \<Rightarrow> string" where
  \<comment> \<open>the decimal numeral of a natural number\<close>
  "show_nat n = (if n < 10 then [char_of (48 + n)] else show_nat (n div 10) @ [char_of (48 + n mod 10)])"
  by pat_completeness auto
termination
  by (relation "measure id") auto

declare show_nat.simps [simp del]

definition diagnostic :: "string \<Rightarrow> perr \<Rightarrow> string" where
  "diagnostic s e =
     (case e of
        UnexpectedEnd \<Rightarrow> ''Unexpected end of JSON input''
      | Unexpected p \<Rightarrow>
          (let c = s ! p in
           if c = CHR 0x22 then ''Unexpected string in JSON at position '' @ show_nat p
           else if c = CHR ''-'' \<or> is_digit c then ''Unexpected number in JSON at position '' @ show_nat p
           else ''Unexpected token '' @ [c] @ '' in JSON at position '' @ show_nat p))"

definition JSON_parse :: "string \<Rightarrow> string + json" where
  "JSON_parse s =
     (case parse_value (lex 0 s) of
        Inl e \<Rightarrow> Inl (diagnostic s e)
      | Inr (v, []) \<Rightarrow> Inr v
      | Inr (v, pt # r) \<Rightarrow> Inl (diagnostic s (unexpected pt)))"

definition show_int :: "int \<Rightarrow> string" where
  "show_int i = (if i < 0 then ''-'' @ show_nat (nat (- i)) else show_nat (nat i))"

definition show_num :: "int \<Rightarrow> int \<Rightarrow> string" where
  \<comment> \<open>\<open>m * 10 ^ e\<close> in positional notation, which is how JavaScript prints a number
      between \<open>10^-6\<close> and \<open>10^21\<close> that a double holds to its last digit\<close>
  "show_num m e =
     (if 0 \<le> e then show_int m @ replicate (nat e) CHR ''0''
      else let ds = show_nat (nat \<bar>m\<bar>); k = nat (- e); sign = (if m < 0 then ''-'' else [])
           in if k < length ds then sign @ take (length ds - k) ds @ ''.'' @ drop (length ds - k) ds
              else sign @ ''0.'' @ replicate (k - length ds) CHR ''0'' @ ds)"

definition escape_char :: "char \<Rightarrow> string" where
  "escape_char c =
     (if c = CHR 0x22 then [CHR 0x5C, CHR 0x22]
      else if c = CHR 0x5C then [CHR 0x5C, CHR 0x5C]
      else if c = CHR 0x08 then [CHR 0x5C, CHR ''b'']
      else if c = CHR 0x0C then [CHR 0x5C, CHR ''f'']
      else if c = CHR 0x0A then [CHR 0x5C, CHR ''n'']
      else if c = CHR 0x0D then [CHR 0x5C, CHR ''r'']
      else if c = CHR 0x09 then [CHR 0x5C, CHR ''t'']
      else if (of_char c :: nat) < 32
        then [CHR 0x5C] @ ''u00'' @ [(''0123456789abcdef'') ! (of_char c div 16), (''0123456789abcdef'') ! (of_char c mod 16)]
      else [c])"

definition quote :: "string \<Rightarrow> string" where
  "quote s = [CHR 0x22] @ concat (map escape_char s) @ [CHR 0x22]"

fun join :: "string \<Rightarrow> string list \<Rightarrow> string" where
  "join sep [] = []"
| "join sep [x] = x"
| "join sep (x # y # ys) = x @ sep @ join sep (y # ys)"

definition isFinite :: "int \<Rightarrow> int \<Rightarrow> bool" where
  \<comment> \<open>whether the decimal \<open>m * 10 ^ e\<close> is read as a finite double\<close>
  "isFinite m e =
     (if 0 \<le> e then \<bar>m\<bar> * 10 ^ nat e < 2 ^ 1024 - 2 ^ 970
      else \<bar>m\<bar> < (2 ^ 1024 - 2 ^ 970) * 10 ^ nat (- e))"

fun JSON_stringify :: "json \<Rightarrow> string" where
  "JSON_stringify JNull = ''null''"
| "JSON_stringify (JBool b) = (if b then ''true'' else ''false'')"
| "JSON_stringify (JNum m e) = (if isFinite m e then show_num m e else ''null'')"
| "JSON_stringify (JStr s) = quote s"
| "JSON_stringify (JArr vs) = ''['' @ join '','' (map JSON_stringify vs) @ '']''"
| "JSON_stringify (JObj props) =
     ''{'' @ join '','' (map (\<lambda>kv. quote (fst kv) @ '':'' @ JSON_stringify (snd kv)) props) @ ''}''"

section \<open>The completion parser (server/api.js, lines 254-292)\<close>

datatype exn = Error (message: string)

type_synonym 'v parser = "string \<Rightarrow> string + 'v"
  \<comment> \<open>\<open>JSON.parse\<close>: \<open>Inl\<close> the message of the \<open>SyntaxError\<close> it throws\<close>

definition jsonRegex :: rx where
  \<comment> \<open>\<open>/\{(?:[^{}]|(?:\{(?:[^{}]|(?:\{[^{}]*\}))*\}))*\}/g\<close>\<close>
  "jsonRegex =
     seqs [chr CHR ''{'',
           Star (Alt (none_of ''{}'')
                     (seqs [chr CHR ''{'',
                            Star (Alt (none_of ''{}'')
                                      (seqs [chr CHR ''{'', Star (none_of ''{}''), chr CHR ''}''])),
                            chr CHR ''}''])),
           chr CHR ''}'']"

fun first_parsed :: "'v parser \<Rightarrow> ('v \<Rightarrow> string) \<Rightarrow> string list \<Rightarrow> string option" where
  \<comment> \<open>the loop of lines 276-282: the first match that parses is returned, a match that
      does not parse is skipped\<close>
  "first_parsed parse stringify [] = None"
| "first_parsed parse stringify (m # matches) =
     (case parse m of
        Inr v \<Rightarrow> Some (stringify v)
      | Inl e \<Rightarrow> first_parsed parse stringify matches)"

definition parseCompletion :: "'v parser \<Rightarrow> ('v \<Rightarrow> string) \<Rightarrow> string \<Rightarrow> string list \<times> (exn + string)" where
  \<comment> \<open>lines 254-286, from the raw content on: the lines written by \<open>console.log\<close>, and
      the value returned (\<open>Inr\<close>) or the error thrown (\<open>Inl\<close>)\<close>
  "parseCompletion parse stringify raw =
     (let content = trim raw in
      case parse content of
        Inr v \<Rightarrow> ([], Inr (stringify v))
      | Inl initialParseError \<Rightarrow>
          (let repairedContent = repairJSON content;
               log = [''Initial parse failed, attempting repair...'',
                      ''Repaired content: '' @ repairedContent]
           in case parse repairedContent of
                Inr v \<Rightarrow> (log, Inr (stringify v))
              | Inl repairParseError \<Rightarrow>
                  (let log = log @ [''Repair parse failed, attempting final fallback...''];
                       matches = match_all jsonRegex repairedContent
                   in case first_parsed parse stringify matches of
                        Some s \<Rightarrow> (log, Inr s)
                      | None \<Rightarrow>
                          (log, Inl (Error (''Failed to parse JSON after all repair attempts: ''
                                            @ repairParseError))))))"

definition getGroqCompletion ::
  "'v parser \<Rightarrow> ('v \<Rightarrow> string) \<Rightarrow> exn + string \<Rightarrow> string list \<times> (exn + string)" where
  \<comment> \<open>lines 225-293. The request to the completion service is outside the model: its
      outcome is the argument, \<open>Inl\<close> the error it threw or \<open>Inr\<close> the content of the
      first choice (\<open>''\<close> when there is none). The outer \<open>catch\<close> wraps every error.\<close>
  "getGroqCompletion parse stringify completion =
     (case completion of
        Inl err \<Rightarrow> ([], Inl (Error (''Groq API Error: '' @ message err)))
      | Inr content \<Rightarrow>
          (case parseCompletion parse stringify content of
             (log, Inl err) \<Rightarrow> (log, Inl (Error (''Groq API Error: '' @ message err)))
           | (log, Inr text) \<Rightarrow> (log, Inr text)))"


definition oneLevelRegex :: rx where
  \<comment> \<open>A balanced-brace pattern supporting one level of nesting, as the specification
      words it: \<open>/\{(?:[^{}]|(?:\{[^{}]*\}))*\}/g\<close>. It is compared with \<open>jsonRegex\<close>, the
      pattern of the code.\<close>
  "oneLevelRegex =
     seqs [chr CHR ''{'',
           Star (Alt (none_of ''{}'') (seqs [chr CHR ''{'', Star (none_of ''{}''), chr CHR ''}''])),
           chr CHR ''}'']"

section \<open>The task breakdown route (server/api.js, lines 377-503)\<close>

fun truthy :: "json \<Rightarrow> bool" where
  \<comment> \<open>\<open>ToBoolean\<close> on a value that \<open>JSON.parse\<close> returns\<close>
  "truthy JNull = False"
| "truthy (JBool b) = b"
| "truthy (JNum m e) = (m \<noteq> 0)"
| "truthy (JStr s) = (s \<noteq> [])"
| "truthy (JArr vs) = True"
| "truthy (JObj props) = True"

fun get :: "json \<Rightarrow> string \<Rightarrow> json option" where
  \<comment> \<open>\<open>x.k\<close> for a value \<open>x\<close> other than \<open>null\<close> and for the names the route reads (\<open>tasks\<close>,
      \<open>id\<close>, \<open>name\<close>, \<open>description\<close>, \<open>estimatedHours\<close>, \<open>requiredSkills\<close>), none of which
      an array, a string, a number or a boolean has; \<open>None\<close> is \<open>undefined\<close>\<close>
  "get (JObj props) k = map_of props k"
| "get _ k = None"

definition or_else :: "json option \<Rightarrow> json \<Rightarrow> json" where
  \<comment> \<open>\<open>a || b\<close>\<close>
  "or_else a b = (case a of None \<Rightarrow> b | Some v \<Rightarrow> if truthy v then v else b)"

definition validate_task :: "nat \<Rightarrow> json \<Rightarrow> exn + json" where
  \<comment> \<open>the function mapped over the tasks, lines 449-455; reading a property of \<open>null\<close>
      throws a \<open>TypeError\<close>\<close>
  "validate_task index task =
     (if task = JNull then Inl (Error ''Cannot read properties of null (reading 'id')'')
      else Inr (JObj
        [(''id'', or_else (get task ''id'') (JStr (''task_'' @ show_nat (index + 1)))),
         (''name'', or_else (get task ''name'') (JStr (''Task '' @ show_nat (index + 1)))),
         (''description'', or_else (get task ''description'') (JStr ''No description provided'')),
         (''estimatedHours'',
            case get task ''estimatedHours'' of Some (JNum m e) \<Rightarrow> JNum m e | _ \<Rightarrow> JNum 4 0),
         (''requiredSkills'',
            case get task ''requiredSkills'' of Some (JArr vs) \<Rightarrow> JArr vs | _ \<Rightarrow> JArr [JStr ''General''])]))"

fun map_tasks :: "nat \<Rightarrow> json list \<Rightarrow> exn + json list" where
  \<comment> \<open>\<open>tasks.map((task, index) => ...)\<close> from \<open>index\<close> on: the first error ends the map\<close>
  "map_tasks index [] = Inr []"
| "map_tasks index (task # tasks) =
     (case validate_task index task of
        Inl err \<Rightarrow> Inl err
      | Inr v \<Rightarrow>
          (case map_tasks (index + 1) tasks of
             Inl err \<Rightarrow> Inl err
           | Inr vs \<Rightarrow> Inr (v # vs)))"

definition reviewTask :: json where
  \<comment> \<open>lines 439-445\<close>
  "reviewTask = JObj
     [(''id'', JStr ''1''),
      (''name'', JStr ''Review Requirements''),
      (''description'', JStr ''Review the provided documentation and break down into actionable tasks.''),
      (''estimatedHours'', JNum 4 0),
      (''requiredSkills'', JArr [JStr ''Business Analysis'', JStr ''Project Management''])]"

definition fallbackTasks :: "json list" where
  \<comment> \<open>lines 464-479\<close>
  "fallbackTasks =
     [JObj [(''id'', JStr ''fallback_1''),
            (''name'', JStr ''Review Project Requirements''),
            (''description'', JStr ''Review the documentation and identify key technical requirements.''),
            (''estimatedHours'', JNum 4 0),
            (''requiredSkills'', JArr [JStr ''Business Analysis'', JStr ''Technical Documentation''])],
      JObj [(''id'', JStr ''fallback_2''),
            (''name'', JStr ''Create Technical Implementation Plan''),
            (''description'', JStr ''Develop a technical plan based on project requirements.''),
            (''estimatedHours'', JNum 8 0),
            (''requiredSkills'', JArr [JStr ''Project Management'', JStr ''Technical Architecture''])]]"

definition emergencyFallbackTasks :: "json list" where
  \<comment> \<open>lines 488-496\<close>
  "emergencyFallbackTasks =
     [JObj [(''id'', JStr ''emergency_1''),
            (''name'', JStr ''Document Review''),
            (''description'', JStr ''Review project requirements and documents.''),
            (''estimatedHours'', JNum 4 0),
            (''requiredSkills'', JArr [JStr ''Documentation'', JStr ''Analysis''])]]"

definition select_tasks :: "json \<Rightarrow> exn + json list" where
  \<comment> \<open>lines 432-446\<close>
  "select_tasks result =
     (case result of
        JArr vs \<Rightarrow> Inr vs
      | JNull \<Rightarrow> Inl (Error ''Cannot read properties of null (reading 'tasks')'')
      | _ \<Rightarrow>
          (case get result ''tasks'' of
             Some (JArr vs) \<Rightarrow> Inr vs
           | _ \<Rightarrow> Inr [reviewTask]))"

definition validated :: "json parser \<Rightarrow> string \<Rightarrow> exn + json list" where
  \<comment> \<open>the inner \<open>try\<close> block, lines 427-458, up to the response: \<open>Inl\<close> the error that the
      inner \<open>catch\<close> receives\<close>
  "validated parse completion =
     (case parse completion of
        Inl d \<Rightarrow> Inl (Error d)
      | Inr result \<Rightarrow>
          (case select_tasks result of
             Inl err \<Rightarrow> Inl err
           | Inr tasks \<Rightarrow> map_tasks 0 tasks))"

record response =
  status :: nat
  body :: json

definition breakdown_tasks ::
  "json parser \<Rightarrow> (json \<Rightarrow> string) \<Rightarrow> json option \<Rightarrow> exn + string \<Rightarrow> response" where
  \<comment> \<open>the handler of \<open>POST /api/breakdown-tasks\<close>: \<open>documents\<close> is the property of the
      request body (\<open>None\<close> when there is none), and \<open>completion\<close> is the outcome of the
      request to the completion service; \<open>res.json\<close> answers with status 200\<close>
  "breakdown_tasks parse stringify documents completion =
     (if \<not> (case documents of None \<Rightarrow> False | Some d \<Rightarrow> truthy d) then
        \<lparr>status = 400,
         body = JObj [(''error'', JStr ''Documents are required''),
                      (''details'', JStr ''The request body must contain documents object'')]\<rparr>
      else
        case snd (getGroqCompletion parse stringify completion) of
          Inl err \<Rightarrow>
            \<lparr>status = 200,
             body = JObj [(''tasks'', JArr emergencyFallbackTasks), (''error'', JStr (message err))]\<rparr>
        | Inr text \<Rightarrow>
            (case validated parse text of
               Inr validatedTasks \<Rightarrow> \<lparr>status = 200, body = JObj [(''tasks'', JArr validatedTasks)]\<rparr>
             | Inl parseError \<Rightarrow> \<lparr>status = 200, body = JObj [(''tasks'', JArr fallbackTasks)]\<rparr>))"

fun task_record :: "json \<Rightarrow> bool" where
  \<comment> \<open>a record with the five fields in their order, the hours a number and the skills an array\<close>
  "task_record (JObj [(k1, i), (k2, n), (k3, d), (k4, JNum m e), (k5, JArr vs)]) =
     (k1 = ''id'' \<and> k2 = ''name'' \<and> k3 = ''description'' \<and> k4 = ''estimatedHours''
      \<and> k5 = ''requiredSkills'')"
| "task_record _ = False"

fun typed_task :: "json \<Rightarrow> bool" where
  \<comment> \<open>a task record whose fields have the types that the prompt asks for: the id a string or
      a number, the name and the description strings, the hours a number, the skills an
      array of strings\<close>
  "typed_task (JObj [(k1, i), (k2, JStr n), (k3, JStr d), (k4, JNum m e), (k5, JArr vs)]) =
     (k1 = ''id'' \<and> k2 = ''name'' \<and> k3 = ''description'' \<and> k4 = ''estimatedHours''
      \<and> k5 = ''requiredSkills''
      \<and> (case i of JStr s \<Rightarrow> True | JNum m' e' \<Rightarrow> True | _ \<Rightarrow> False)
      \<and> list_all (\<lambda>v. case v of JStr s \<Rightarrow> True | _ \<Rightarrow> False) vs)"
| "typed_task _ = False"

section \<open>Helper facts about strings\<close>

lemma includes_append_left: "str_includes s sub \<Longrightarrow> str_includes (p @ s) sub"
  unfolding str_includes_def sublist_def by (metis append.assoc)

lemma includes_append_right: "str_includes s sub \<Longrightarrow> str_includes (s @ q) sub"
  unfolding str_includes_def sublist_def by (metis append.assoc)

lemma includes_self_left: "str_includes (sub @ q) sub"
  by (simp add: str_includes_def)

lemma includes_self_right: "str_includes (p @ sub) sub"
  by (simp add: str_includes_def)

lemmas includes_eval = str_includes_def sublist_code prefix_code

text \<open>
  C8. The delimiting step puts the start marker in front only when the content lacks it
  and the end marker behind only when the content lacks it. Content that holds both
  markers comes back unchanged, and the result always holds both markers.
\<close>

theorem delimit_adds_only_missing_markers:
  "delimit content =
      (if str_includes content ''@startuml'' then [] else ''@startuml'' @ [CHR 0x0A])
      @ content
      @ (if str_includes content ''@enduml'' then [] else [CHR 0x0A] @ ''@enduml'')
   \<and> (str_includes content ''@startuml'' \<and> str_includes content ''@enduml''
        \<longrightarrow> delimit content = content)
   \<and> str_includes (delimit content) ''@startuml''
   \<and> str_includes (delimit content) ''@enduml''"
proof -
  have shape: "delimit content =
      (if str_includes content ''@startuml'' then [] else ''@startuml'' @ [CHR 0x0A])
      @ content
      @ (if str_includes content ''@enduml'' then [] else [CHR 0x0A] @ ''@enduml'')"
    by (simp add: delimit_def Let_def)
  have start: "str_includes (delimit content) ''@startuml''"
  proof (cases "str_includes content ''@startuml''")
    case True
    then have "str_includes (content @ q) ''@startuml''" for q
      by (rule includes_append_right)
    with True show ?thesis unfolding shape by simp
  next
    case False
    have "str_includes (''@startuml'' @ q) ''@startuml''" for q
      by (rule includes_self_left)
    from this [of "[CHR 0x0A] @ content @ (if str_includes content ''@enduml'' then [] else [CHR 0x0A] @ ''@enduml'')"]
    show ?thesis unfolding shape using False by simp
  qed
  have stop: "str_includes (delimit content) ''@enduml''"
  proof (cases "str_includes content ''@enduml''")
    case True
    then have "str_includes (p @ content) ''@enduml''" for p
      by (rule includes_append_left)
    with True show ?thesis unfolding shape by simp
  next
    case False
    have "str_includes (p @ ''@enduml'') ''@enduml''" for p
      by (rule includes_self_right)
    from this [of "(if str_includes content ''@startuml'' then [] else ''@startuml'' @ [CHR 0x0A]) @ content @ [CHR 0x0A]"]
    show ?thesis unfolding shape using False by simp
  qed
  from shape start stop show ?thesis by simp
qed

theorem delimit_adds_only_missing_markers_witness:
  "str_includes (''@startuml'' @ [CHR 0x0A] @ ''A -> B'' @ [CHR 0x0A] @ ''@enduml'') ''@startuml''
   \<and> str_includes (''@startuml'' @ [CHR 0x0A] @ ''A -> B'' @ [CHR 0x0A] @ ''@enduml'') ''@enduml''
   \<and> delimit (''@startuml'' @ [CHR 0x0A] @ ''A -> B'' @ [CHR 0x0A] @ ''@enduml'')
       = ''@startuml'' @ [CHR 0x0A] @ ''A -> B'' @ [CHR 0x0A] @ ''@enduml''"
proof -
  have a: "str_includes (''@startuml'' @ [CHR 0x0A] @ ''A -> B'' @ [CHR 0x0A] @ ''@enduml'') ''@startuml''"
    by (simp add: includes_eval)
  have b: "str_includes (''@startuml'' @ [CHR 0x0A] @ ''A -> B'' @ [CHR 0x0A] @ ''@enduml'') ''@enduml''"
    by (simp add: includes_eval)
  from a b delimit_adds_only_missing_markers
    [of "''@startuml'' @ [CHR 0x0A] @ ''A -> B'' @ [CHR 0x0A] @ ''@enduml''"]
  show ?thesis by blast
qed

lemma trim_Nil_all_space: "trim s = [] \<Longrightarrow> \<forall>c\<in>set s. is_space c"
proof -
  assume "trim s = []"
  then have a: "dropWhile is_space (rev (dropWhile is_space s)) = []"
    by (simp add: trim_def)
  have "dropWhile is_space s = []"
  proof (rule ccontr)
    assume ne: "dropWhile is_space s \<noteq> []"
    then have "\<not> is_space (hd (dropWhile is_space s))" by (rule hd_dropWhile)
    moreover have "hd (dropWhile is_space s) \<in> set (rev (dropWhile is_space s))"
      using ne by simp
    moreover from a have "\<forall>c\<in>set (rev (dropWhile is_space s)). is_space c"
      by (simp only: dropWhile_eq_Nil_conv)
    ultimately show False by blast
  qed
  then show ?thesis by (simp only: dropWhile_eq_Nil_conv)
qed

lemma to_lower_space: "is_space c \<Longrightarrow> to_lower_char c = c"
  by (auto simp: is_space_def to_lower_char_def)

lemma includes_set: "str_includes s sub \<Longrightarrow> set sub \<subseteq> set s"
  unfolding str_includes_def by (rule set_mono_sublist)

lemma blank_classify:
  assumes "trim content = []" shows "classify content = Class"
proof -
  from assms have sp: "\<forall>c\<in>set content. is_space c" by (rule trim_Nil_all_space)
  then have "map to_lower_char content = content"
    by (simp add: map_idI to_lower_space)
  then have lc: "toLowerCase content = content" by (simp add: toLowerCase_def)
  have no: "\<not> str_includes content sub" if "\<exists>c\<in>set sub. \<not> is_space c" for sub
    using that sp includes_set [of content sub] by blast
  have "\<not> str_includes content ''actor''" by (rule no) (simp add: is_space_def)
  moreover have "\<not> str_includes content ''usecase''" by (rule no) (simp add: is_space_def)
  moreover have "\<not> str_includes content ''participant''" by (rule no) (simp add: is_space_def)
  moreover have "\<not> str_includes content ''->''" by (rule no) (simp add: is_space_def)
  moreover have "\<not> str_includes content ''start''" by (rule no) (simp add: is_space_def)
  moreover have "\<not> str_includes content ''component''" by (rule no) (simp add: is_space_def)
  ultimately show ?thesis by (simp add: classify_def lc)
qed

lemma primary_blank: "trim content = [] \<Longrightarrow> primary enc content = Inl ''Empty PlantUML content''"
  by (simp add: primary_def)

text \<open>
  C9. Content that is empty, or white space only, fails the validation of the primary
  path before anything is encoded: no primary URL is built, and the state is the one
  the fallback branch writes, from the classification of the content (which is the
  default, class) and its template.
\<close>

theorem blank_content_takes_fallback:
  assumes "trim content = []"
  shows "primary enc content = Inl ''Empty PlantUML content''
   \<and> resolve enc title content =
       fallback enc title content
         (initial\<lparr>error := Some ''Failed to generate diagram: Empty PlantUML content'', loading := False\<rparr>)
   \<and> useFallback (resolve enc title content)
   \<and> classify content = Class
   \<and> imageUrl (resolve enc title content) =
       (case enc (simplifyUml title content) of
          Inl fallbackErr \<Rightarrow> []
        | Inr fallbackEncoded \<Rightarrow> PLANTUML_SERVER_BACKUP @ ''/'' @ fallbackEncoded)"
proof -
  have p: "primary enc content = Inl ''Empty PlantUML content''"
    using assms by (rule primary_blank)
  have r: "resolve enc title content =
       fallback enc title content
         (initial\<lparr>error := Some ''Failed to generate diagram: Empty PlantUML content'', loading := False\<rparr>)"
    by (simp add: resolve_def p)
  have u: "useFallback (resolve enc title content)"
    unfolding r by (simp add: fallback_def Let_def split: sum.split)
  have i: "imageUrl (resolve enc title content) =
       (case enc (simplifyUml title content) of
          Inl fallbackErr \<Rightarrow> []
        | Inr fallbackEncoded \<Rightarrow> PLANTUML_SERVER_BACKUP @ ''/'' @ fallbackEncoded)"
    unfolding r by (simp add: fallback_def Let_def initial_def split: sum.split)
  from p r u i blank_classify [OF assms] show ?thesis by simp
qed

theorem blank_content_takes_fallback_witness:
  "trim ('' '' @ [CHR 0x0A, CHR 0x09]) = []
   \<and> resolve hex_encoder (Some ''Login'') ('' '' @ [CHR 0x0A, CHR 0x09]) =
       fallback hex_encoder (Some ''Login'') ('' '' @ [CHR 0x0A, CHR 0x09])
         (initial\<lparr>error := Some ''Failed to generate diagram: Empty PlantUML content'', loading := False\<rparr>)
   \<and> classify ('' '' @ [CHR 0x0A, CHR 0x09]) = Class"
proof -
  have h: "trim ('' '' @ [CHR 0x0A, CHR 0x09]) = []"
    by (simp add: trim_def is_space_def)
  from h blank_content_takes_fallback [OF h, of hex_encoder "Some ''Login''"]
  show ?thesis by blast
qed

lemma hex_digit_payload: "payload_char (hex_digit n)"
proof -
  have "(''0123456789ABCDEF'') ! (n mod 16) \<in> set ''0123456789ABCDEF''"
    by (rule nth_mem) simp
  then have "hex_digit n \<in> set ''0123456789ABCDEF''" by simp
  then show ?thesis
    unfolding payload_char_def by (simp del: hex_digit.simps) blast
qed

lemma hex_encoder_payload: "hex_encoder s = Inr e \<Longrightarrow> list_all payload_char e"
  by (induction s arbitrary: e) (auto simp: hex_encoder_def hex_digit_payload simp del: hex_digit.simps)

lemma ascii_hex_encoder_payload: "ascii_hex_encoder s = Inr e \<Longrightarrow> list_all payload_char e"
  by (auto simp: ascii_hex_encoder_def hex_encoder_payload split: if_splits)

lemma failing_encoder_payload: "failing_encoder s = Inr e \<Longrightarrow> list_all payload_char e"
  by (simp add: failing_encoder_def)

lemma payload_path: "list_all payload_char e \<Longrightarrow> list_all path_char e"
  by (simp add: list_all_iff path_char_def)

lemma primary_url_well_formed:
  "list_all payload_char e \<Longrightarrow> well_formed_url (PLANTUML_SERVER @ ''/svg/'' @ e)"
  by (simp add: well_formed_url_def PLANTUML_SERVER_def Let_def host_char_def path_char_def
      payload_char_def payload_path)

lemma backup_url_well_formed:
  "list_all payload_char e \<Longrightarrow> well_formed_url (PLANTUML_SERVER_BACKUP @ ''/'' @ e)"
  by (simp add: well_formed_url_def PLANTUML_SERVER_BACKUP_def Let_def host_char_def path_char_def
      payload_char_def payload_path)

lemma not_well_formed_Nil: "\<not> well_formed_url []"
  by (simp add: well_formed_url_def)

lemma resolve_primary_ok:
  "primary enc content = Inr u \<Longrightarrow>
   resolve enc title content = \<lparr>loading = False, error = None, imageUrl = u, useFallback = False\<rparr>"
  by (simp add: resolve_def initial_def)

lemma resolve_fallback_ok:
  "primary enc content = Inl m \<Longrightarrow> enc (simplifyUml title content) = Inr e \<Longrightarrow>
   resolve enc title content =
     \<lparr>loading = False, error = Some (''Failed to generate diagram: '' @ m),
      imageUrl = PLANTUML_SERVER_BACKUP @ ''/'' @ e, useFallback = True\<rparr>"
  by (simp add: resolve_def initial_def fallback_def Let_def)

lemma resolve_fallback_fails:
  "primary enc content = Inl m \<Longrightarrow> enc (simplifyUml title content) = Inl m' \<Longrightarrow>
   resolve enc title content =
     \<lparr>loading = False, error = Some (''Failed to generate diagram: '' @ m),
      imageUrl = [], useFallback = True\<rparr>"
  by (simp add: resolve_def initial_def fallback_def Let_def)

lemma primary_not_blank:
  "trim content \<noteq> [] \<Longrightarrow>
   primary enc content =
     (case enc (delimit content) of Inl msg \<Rightarrow> Inl msg
      | Inr encoded \<Rightarrow> Inr (PLANTUML_SERVER @ ''/svg/'' @ encoded))"
  by (auto simp: primary_def trim_def)

text \<open>
  C2, as the code has it. \<open>resolve\<close> is a total function: every error of the validation
  and of the encoder is caught inside. For content that is not blank the primary path
  decides by the encoder alone. When the encoder (whose output is made of unreserved
  characters) succeeds on the delimited content, the URL is the primary endpoint,
  \<open>/svg/\<close> and the payload; when the primary path fails and the encoder succeeds on the
  substitute diagram, the URL is the backup endpoint, \<open>/\<close> and the payload, and the
  result is flagged; both URLs are well-formed absolute URLs. When the encoder fails on
  the substitute diagram too, the error is logged and the URL stays empty.
\<close>

theorem resolve_url_by_encoder_outcome:
  assumes alphabet: "\<forall>s e. enc s = Inr e \<longrightarrow> list_all payload_char e"
  shows "(trim content \<noteq> [] \<longrightarrow>
            primary enc content =
              (case enc (delimit content) of Inl msg \<Rightarrow> Inl msg
               | Inr encoded \<Rightarrow> Inr (PLANTUML_SERVER @ ''/svg/'' @ encoded)))
       \<and> (\<forall>u. primary enc content = Inr u \<longrightarrow>
            resolve enc title content =
              \<lparr>loading = False, error = None, imageUrl = u, useFallback = False\<rparr>
            \<and> well_formed_url u)
       \<and> (\<forall>m e. primary enc content = Inl m \<and> enc (simplifyUml title content) = Inr e \<longrightarrow>
            resolve enc title content =
              \<lparr>loading = False, error = Some (''Failed to generate diagram: '' @ m),
               imageUrl = PLANTUML_SERVER_BACKUP @ ''/'' @ e, useFallback = True\<rparr>
            \<and> well_formed_url (PLANTUML_SERVER_BACKUP @ ''/'' @ e))
       \<and> (\<forall>m m'. primary enc content = Inl m \<and> enc (simplifyUml title content) = Inl m' \<longrightarrow>
            resolve enc title content =
              \<lparr>loading = False, error = Some (''Failed to generate diagram: '' @ m),
               imageUrl = [], useFallback = True\<rparr>)"
proof (intro conjI allI impI)
  assume "trim content \<noteq> []"
  then show "primary enc content =
              (case enc (delimit content) of Inl msg \<Rightarrow> Inl msg
               | Inr encoded \<Rightarrow> Inr (PLANTUML_SERVER @ ''/svg/'' @ encoded))"
    by (rule primary_not_blank)
next
  fix u assume "primary enc content = Inr u"
  then show "resolve enc title content =
              \<lparr>loading = False, error = None, imageUrl = u, useFallback = False\<rparr>"
    by (rule resolve_primary_ok)
next
  fix u assume p: "primary enc content = Inr u"
  then obtain e where e: "enc (delimit content) = Inr e" and u: "u = PLANTUML_SERVER @ ''/svg/'' @ e"
    by (auto simp: primary_def split: if_splits sum.splits)
  from alphabet e have "list_all payload_char e" by blast
  then show "well_formed_url u"
    unfolding u by (rule primary_url_well_formed)
next
  fix m e assume "primary enc content = Inl m \<and> enc (simplifyUml title content) = Inr e"
  then show "resolve enc title content =
              \<lparr>loading = False, error = Some (''Failed to generate diagram: '' @ m),
               imageUrl = PLANTUML_SERVER_BACKUP @ ''/'' @ e, useFallback = True\<rparr>"
    by (simp add: resolve_fallback_ok)
next
  fix m e assume "primary enc content = Inl m \<and> enc (simplifyUml title content) = Inr e"
  then have "list_all payload_char e" using alphabet by blast
  then show "well_formed_url (PLANTUML_SERVER_BACKUP @ ''/'' @ e)"
    by (rule backup_url_well_formed)
next
  fix m m' assume "primary enc content = Inl m \<and> enc (simplifyUml title content) = Inl m'"
  then show "resolve enc title content =
              \<lparr>loading = False, error = Some (''Failed to generate diagram: '' @ m),
               imageUrl = [], useFallback = True\<rparr>"
    by (simp add: resolve_fallback_fails)
qed

lemmas resolver_eval =
  primary_def trim_def is_space_def delimit_def includes_eval ascii_hex_encoder_def
  hex_encoder_def simplifyUml_def classify_def toLowerCase_def to_lower_char_def unlines_def
  title_or_default_def

theorem resolve_url_by_encoder_outcome_witness:
  "trim ''A->B'' \<noteq> []
   \<and> primary ascii_hex_encoder ''A->B'' = Inr (PLANTUML_SERVER @ ''/svg/407374617274756D6C0A412D3E420A40656E64756D6C'')
   \<and> resolve ascii_hex_encoder None ''A->B'' =
        \<lparr>loading = False, error = None,
         imageUrl = PLANTUML_SERVER @ ''/svg/407374617274756D6C0A412D3E420A40656E64756D6C'',
         useFallback = False\<rparr>
   \<and> well_formed_url (PLANTUML_SERVER @ ''/svg/407374617274756D6C0A412D3E420A40656E64756D6C'')
   \<and> primary ascii_hex_encoder (''caf'' @ [CHR 0xE9]) = Inl ''character out of range''
   \<and> useFallback (resolve ascii_hex_encoder None (''caf'' @ [CHR 0xE9]))
   \<and> well_formed_url (imageUrl (resolve ascii_hex_encoder None (''caf'' @ [CHR 0xE9])))
   \<and> primary failing_encoder ''A->B'' = Inl ''encode failed''
   \<and> failing_encoder (simplifyUml None ''A->B'') = Inl ''encode failed''
   \<and> imageUrl (resolve failing_encoder None ''A->B'') = []"
proof -
  have "\<forall>s e. ascii_hex_encoder s = Inr e \<longrightarrow> list_all payload_char e"
    by (simp add: ascii_hex_encoder_payload)
  note ascii = resolve_url_by_encoder_outcome [OF this]
  have "\<forall>s e. failing_encoder s = Inr e \<longrightarrow> list_all payload_char e"
    by (simp add: failing_encoder_def)
  note failing = resolve_url_by_encoder_outcome [OF this]
  have nb: "trim ''A->B'' \<noteq> []"
    by (simp add: trim_def is_space_def)
  have p1: "primary ascii_hex_encoder ''A->B'' =
      Inr (PLANTUML_SERVER @ ''/svg/407374617274756D6C0A412D3E420A40656E64756D6C'')"
    by (simp add: resolver_eval)
  have p2: "primary ascii_hex_encoder (''caf'' @ [CHR 0xE9]) = Inl ''character out of range''"
    by (simp add: resolver_eval)
  obtain e where e: "ascii_hex_encoder (simplifyUml None (''caf'' @ [CHR 0xE9])) = Inr e"
    by (simp add: resolver_eval)
  have p3: "primary failing_encoder ''A->B'' = Inl ''encode failed''"
    by (simp add: primary_def trim_def is_space_def failing_encoder_def)
  have f3: "failing_encoder (simplifyUml None ''A->B'') = Inl ''encode failed''"
    by (simp add: failing_encoder_def)
  from ascii [where content = "''A->B''" and title = None] p1
  have r1: "resolve ascii_hex_encoder None ''A->B'' =
        \<lparr>loading = False, error = None,
         imageUrl = PLANTUML_SERVER @ ''/svg/407374617274756D6C0A412D3E420A40656E64756D6C'',
         useFallback = False\<rparr>"
    and w1: "well_formed_url (PLANTUML_SERVER @ ''/svg/407374617274756D6C0A412D3E420A40656E64756D6C'')"
    by blast+
  from ascii [where content = "''caf'' @ [CHR 0xE9]" and title = None] p2 e
  have r2: "resolve ascii_hex_encoder None (''caf'' @ [CHR 0xE9]) =
        \<lparr>loading = False, error = Some (''Failed to generate diagram: '' @ ''character out of range''),
         imageUrl = PLANTUML_SERVER_BACKUP @ ''/'' @ e, useFallback = True\<rparr>"
    and w2: "well_formed_url (PLANTUML_SERVER_BACKUP @ ''/'' @ e)"
    by blast+
  from failing [where content = "''A->B''" and title = None] p3 f3
  have r3: "resolve failing_encoder None ''A->B'' =
        \<lparr>loading = False, error = Some (''Failed to generate diagram: '' @ ''encode failed''),
         imageUrl = [], useFallback = True\<rparr>"
    by blast
  from r2 w2 have u2: "useFallback (resolve ascii_hex_encoder None (''caf'' @ [CHR 0xE9]))"
    and i2: "well_formed_url (imageUrl (resolve ascii_hex_encoder None (''caf'' @ [CHR 0xE9])))"
    by simp_all
  from r3 have i3: "imageUrl (resolve failing_encoder None ''A->B'') = []" by simp
  from nb p1 r1 w1 p2 u2 i2 p3 f3 i3 show ?thesis by blast
qed

theorem resolve_url_nonempty_counterexample:
  "''A->B'' \<noteq> []
   \<and> imageUrl (resolve failing_encoder None ''A->B'') = []
   \<and> \<not> well_formed_url (imageUrl (resolve failing_encoder None ''A->B''))"
  by (simp add: resolve_def primary_def trim_def is_space_def failing_encoder_def fallback_def
      initial_def well_formed_url_def)

lemma resolve_failed_flag:
  "primary enc content = Inl msg \<Longrightarrow> useFallback (resolve enc title content)"
  by (simp add: resolve_def fallback_def Let_def split: sum.split)

lemma template_Sequence_participant: "str_includes (template Sequence) ''participant''"
  by (simp add: unlines_def includes_eval)

lemma simplifyUml_shape:
  "simplifyUml title content =
     ''@startuml'' @ [CHR 0x0A] @ ''title '' @ title_or_default title @ [CHR 0x0A]
     @ template (classify content) @ [CHR 0x0A] @ ''@enduml''"
  by (simp add: simplifyUml_def unlines_def Let_def)

lemma simplifyUml_includes_template:
  "str_includes (template (classify content)) sub \<Longrightarrow> str_includes (simplifyUml title content) sub"
proof -
  assume a: "str_includes (template (classify content)) sub"
  have "simplifyUml title content =
     (''@startuml'' @ [CHR 0x0A] @ ''title '' @ title_or_default title @ [CHR 0x0A])
     @ (template (classify content) @ ([CHR 0x0A] @ ''@enduml''))"
    by (simp add: simplifyUml_shape)
  moreover from a have "str_includes (template (classify content) @ ([CHR 0x0A] @ ''@enduml'')) sub"
    by (rule includes_append_right)
  ultimately show ?thesis
    by (simp only: includes_append_left)
qed

lemma includes_toLowerCase:
  "str_includes s sub \<Longrightarrow> str_includes (toLowerCase s) (toLowerCase sub)"
proof -
  assume "str_includes s sub"
  then obtain p q where "s = p @ sub @ q"
    by (auto simp: str_includes_def sublist_def)
  then have "toLowerCase s = toLowerCase p @ toLowerCase sub @ toLowerCase q"
    by (simp add: toLowerCase_def)
  then show ?thesis
    unfolding str_includes_def sublist_def by blast
qed

lemma includes_participant_A:
  "str_includes content ''participant A'' \<Longrightarrow> str_includes (toLowerCase content) ''participant''"
proof -
  assume "str_includes content ''participant A''"
  then have "str_includes (toLowerCase content) (toLowerCase ''participant A'')"
    by (rule includes_toLowerCase)
  moreover have "toLowerCase ''participant A'' = ''participant'' @ '' a''"
    by code_simp
  ultimately obtain p q where "toLowerCase content = p @ (''participant'' @ '' a'') @ q"
    by (auto simp: str_includes_def sublist_def)
  then have "toLowerCase content = p @ ''participant'' @ ('' a'' @ q)"
    by simp
  then show ?thesis
    unfolding str_includes_def sublist_def by blast
qed

text \<open>
  C7, as the code has it. When the primary path fails, the result is flagged as fallback
  and carries the error message. The substitute diagram is the start marker, a title
  line with the request's title (or \<open>UML Diagram\<close>), the fixed template of the category
  and the end marker, where the category is decided on the lower-cased content in the
  order usecase, sequence, activity, component, class. When the encoder succeeds on the
  substitute diagram the URL is the backup endpoint with its payload, otherwise the URL
  stays empty. Every test is made on the lower-cased content: content whose lower-cased
  text holds \<open>participant\<close> (as content holding \<open>participant A\<close> does) and holds neither
  \<open>actor\<close> nor \<open>usecase\<close> gets the sequence template, whose body holds \<open>participant\<close>;
  \<open>start\<close> and \<open>stop\<close> play no part in that case.
\<close>

theorem fallback_classification_and_template:
  assumes "primary enc content = Inl msg"
  shows "useFallback (resolve enc title content)
   \<and> error (resolve enc title content) = Some (''Failed to generate diagram: '' @ msg)
   \<and> imageUrl (resolve enc title content) =
       (case enc (simplifyUml title content) of
          Inl fallbackErr \<Rightarrow> []
        | Inr fallbackEncoded \<Rightarrow> PLANTUML_SERVER_BACKUP @ ''/'' @ fallbackEncoded)
   \<and> simplifyUml title content =
       ''@startuml'' @ [CHR 0x0A] @ ''title '' @ title_or_default title @ [CHR 0x0A]
       @ template (classify content) @ [CHR 0x0A] @ ''@enduml''
   \<and> (str_includes (toLowerCase content) ''actor'' \<or> str_includes (toLowerCase content) ''usecase''
        \<longrightarrow> classify content = Usecase)
   \<and> (\<not> str_includes (toLowerCase content) ''actor'' \<and> \<not> str_includes (toLowerCase content) ''usecase''
        \<and> (str_includes (toLowerCase content) ''participant'' \<or> str_includes (toLowerCase content) ''->'')
        \<longrightarrow> classify content = Sequence
            \<and> str_includes (simplifyUml title content) ''participant'')
   \<and> (str_includes content ''participant A''
        \<and> \<not> str_includes (toLowerCase content) ''actor'' \<and> \<not> str_includes (toLowerCase content) ''usecase''
        \<longrightarrow> classify content = Sequence
            \<and> str_includes (simplifyUml title content) ''participant'')
   \<and> (\<not> str_includes (toLowerCase content) ''actor'' \<and> \<not> str_includes (toLowerCase content) ''usecase''
        \<and> \<not> str_includes (toLowerCase content) ''participant'' \<and> \<not> str_includes (toLowerCase content) ''->''
        \<and> str_includes (toLowerCase content) ''start'' \<and> str_includes (toLowerCase content) ''stop''
        \<longrightarrow> classify content = Activity)
   \<and> (\<not> str_includes (toLowerCase content) ''actor'' \<and> \<not> str_includes (toLowerCase content) ''usecase''
        \<and> \<not> str_includes (toLowerCase content) ''participant'' \<and> \<not> str_includes (toLowerCase content) ''->''
        \<and> \<not> (str_includes (toLowerCase content) ''start'' \<and> str_includes (toLowerCase content) ''stop'')
        \<and> str_includes (toLowerCase content) ''component''
        \<longrightarrow> classify content = Component)
   \<and> (\<not> str_includes (toLowerCase content) ''actor'' \<and> \<not> str_includes (toLowerCase content) ''usecase''
        \<and> \<not> str_includes (toLowerCase content) ''participant'' \<and> \<not> str_includes (toLowerCase content) ''->''
        \<and> \<not> (str_includes (toLowerCase content) ''start'' \<and> str_includes (toLowerCase content) ''stop'')
        \<and> \<not> str_includes (toLowerCase content) ''component''
        \<longrightarrow> classify content = Class)"
proof -
  have r: "resolve enc title content =
       fallback enc title content
         (initial\<lparr>error := Some (''Failed to generate diagram: '' @ msg), loading := False\<rparr>)"
    by (simp add: resolve_def assms)
  have u: "useFallback (resolve enc title content)"
    unfolding r by (simp add: fallback_def Let_def split: sum.split)
  have e: "error (resolve enc title content) = Some (''Failed to generate diagram: '' @ msg)"
    unfolding r by (simp add: fallback_def Let_def initial_def split: sum.split)
  have i: "imageUrl (resolve enc title content) =
       (case enc (simplifyUml title content) of
          Inl fallbackErr \<Rightarrow> []
        | Inr fallbackEncoded \<Rightarrow> PLANTUML_SERVER_BACKUP @ ''/'' @ fallbackEncoded)"
    unfolding r by (simp add: fallback_def Let_def initial_def split: sum.split)
  have s: "classify content = Sequence \<Longrightarrow> str_includes (simplifyUml title content) ''participant''"
    using simplifyUml_includes_template [of content "''participant''" title]
      template_Sequence_participant by simp
  have c1: "str_includes (toLowerCase content) ''actor'' \<or> str_includes (toLowerCase content) ''usecase''
        \<longrightarrow> classify content = Usecase"
    by (simp add: classify_def)
  have c2: "\<not> str_includes (toLowerCase content) ''actor'' \<and> \<not> str_includes (toLowerCase content) ''usecase''
        \<and> (str_includes (toLowerCase content) ''participant'' \<or> str_includes (toLowerCase content) ''->'')
        \<longrightarrow> classify content = Sequence"
    by (simp add: classify_def)
  have c3: "\<not> str_includes (toLowerCase content) ''actor'' \<and> \<not> str_includes (toLowerCase content) ''usecase''
        \<and> \<not> str_includes (toLowerCase content) ''participant'' \<and> \<not> str_includes (toLowerCase content) ''->''
        \<and> str_includes (toLowerCase content) ''start'' \<and> str_includes (toLowerCase content) ''stop''
        \<longrightarrow> classify content = Activity"
    by (simp add: classify_def)
  have c4: "\<not> str_includes (toLowerCase content) ''actor'' \<and> \<not> str_includes (toLowerCase content) ''usecase''
        \<and> \<not> str_includes (toLowerCase content) ''participant'' \<and> \<not> str_includes (toLowerCase content) ''->''
        \<and> \<not> (str_includes (toLowerCase content) ''start'' \<and> str_includes (toLowerCase content) ''stop'')
        \<and> str_includes (toLowerCase content) ''component''
        \<longrightarrow> classify content = Component"
    by (auto simp: classify_def Let_def)
  have c5: "\<not> str_includes (toLowerCase content) ''actor'' \<and> \<not> str_includes (toLowerCase content) ''usecase''
        \<and> \<not> str_includes (toLowerCase content) ''participant'' \<and> \<not> str_includes (toLowerCase content) ''->''
        \<and> \<not> (str_includes (toLowerCase content) ''start'' \<and> str_includes (toLowerCase content) ''stop'')
        \<and> \<not> str_includes (toLowerCase content) ''component''
        \<longrightarrow> classify content = Class"
    by (auto simp: classify_def Let_def)
  have c2': "str_includes content ''participant A''
        \<and> \<not> str_includes (toLowerCase content) ''actor'' \<and> \<not> str_includes (toLowerCase content) ''usecase''
        \<longrightarrow> classify content = Sequence"
    using c2 includes_participant_A [of content] by blast
  from u e i simplifyUml_shape [of title content] c1 c2 c2' s c3 c4 c5 show ?thesis
    by blast
qed

theorem fallback_classification_and_template_witness:
  "primary ascii_hex_encoder (''participant Ren'' @ [CHR 0xE9]) = Inl ''character out of range''
   \<and> \<not> str_includes (toLowerCase (''participant Ren'' @ [CHR 0xE9])) ''actor''
   \<and> \<not> str_includes (toLowerCase (''participant Ren'' @ [CHR 0xE9])) ''usecase''
   \<and> str_includes (toLowerCase (''participant Ren'' @ [CHR 0xE9])) ''participant''
   \<and> useFallback (resolve ascii_hex_encoder (Some ''Checkout'') (''participant Ren'' @ [CHR 0xE9]))
   \<and> classify (''participant Ren'' @ [CHR 0xE9]) = Sequence
   \<and> str_includes (simplifyUml (Some ''Checkout'') (''participant Ren'' @ [CHR 0xE9])) ''participant''
   \<and> str_includes (simplifyUml (Some ''Checkout'') (''participant Ren'' @ [CHR 0xE9])) ''title Checkout''"
proof -
  have p: "primary ascii_hex_encoder (''participant Ren'' @ [CHR 0xE9]) = Inl ''character out of range''"
    by (simp add: resolver_eval)
  have a: "\<not> str_includes (toLowerCase (''participant Ren'' @ [CHR 0xE9])) ''actor''"
    by (simp add: toLowerCase_def to_lower_char_def includes_eval)
  have b: "\<not> str_includes (toLowerCase (''participant Ren'' @ [CHR 0xE9])) ''usecase''"
    by (simp add: toLowerCase_def to_lower_char_def includes_eval)
  have c: "str_includes (toLowerCase (''participant Ren'' @ [CHR 0xE9])) ''participant''"
    by (simp add: toLowerCase_def to_lower_char_def includes_eval)
  note t = fallback_classification_and_template [OF p, of "Some ''Checkout''"]
  from t have u: "useFallback (resolve ascii_hex_encoder (Some ''Checkout'') (''participant Ren'' @ [CHR 0xE9]))"
    by blast
  from t a b c have s: "classify (''participant Ren'' @ [CHR 0xE9]) = Sequence"
    and i: "str_includes (simplifyUml (Some ''Checkout'') (''participant Ren'' @ [CHR 0xE9])) ''participant''"
    by blast+
  from t have "simplifyUml (Some ''Checkout'') (''participant Ren'' @ [CHR 0xE9]) =
       ''@startuml'' @ [CHR 0x0A] @ ''title '' @ title_or_default (Some ''Checkout'') @ [CHR 0x0A]
       @ template (classify (''participant Ren'' @ [CHR 0xE9])) @ [CHR 0x0A] @ ''@enduml''"
    by blast
  then have ti: "str_includes (simplifyUml (Some ''Checkout'') (''participant Ren'' @ [CHR 0xE9])) ''title Checkout''"
    by (simp add: s title_or_default_def unlines_def includes_eval)
  from p a b c u s i ti show ?thesis by blast
qed

theorem participant_body_counterexample:
  "str_includes (''Actor Ren'' @ [CHR 0xE9, CHR 0x0A] @ ''participant A'') ''participant A''
   \<and> \<not> str_includes (''Actor Ren'' @ [CHR 0xE9, CHR 0x0A] @ ''participant A'') ''actor''
   \<and> \<not> str_includes (''Actor Ren'' @ [CHR 0xE9, CHR 0x0A] @ ''participant A'') ''usecase''
   \<and> \<not> str_includes (toLowerCase (''Actor Ren'' @ [CHR 0xE9, CHR 0x0A] @ ''participant A'')) ''start''
   \<and> \<not> str_includes (toLowerCase (''Actor Ren'' @ [CHR 0xE9, CHR 0x0A] @ ''participant A'')) ''stop''
   \<and> primary ascii_hex_encoder (''Actor Ren'' @ [CHR 0xE9, CHR 0x0A] @ ''participant A'')
        = Inl ''character out of range''
   \<and> useFallback (resolve ascii_hex_encoder None (''Actor Ren'' @ [CHR 0xE9, CHR 0x0A] @ ''participant A''))
   \<and> classify (''Actor Ren'' @ [CHR 0xE9, CHR 0x0A] @ ''participant A'') = Usecase
   \<and> \<not> str_includes (simplifyUml None (''Actor Ren'' @ [CHR 0xE9, CHR 0x0A] @ ''participant A''))
          ''participant''"
proof -
  have a: "str_includes (''Actor Ren'' @ [CHR 0xE9, CHR 0x0A] @ ''participant A'') ''participant A''"
    by (simp add: includes_eval)
  have a1: "\<not> str_includes (''Actor Ren'' @ [CHR 0xE9, CHR 0x0A] @ ''participant A'') ''actor''"
    by (simp add: includes_eval)
  have a2: "\<not> str_includes (''Actor Ren'' @ [CHR 0xE9, CHR 0x0A] @ ''participant A'') ''usecase''"
    by (simp add: includes_eval)
  have b: "\<not> str_includes (toLowerCase (''Actor Ren'' @ [CHR 0xE9, CHR 0x0A] @ ''participant A'')) ''start''"
    by code_simp
  have c: "\<not> str_includes (toLowerCase (''Actor Ren'' @ [CHR 0xE9, CHR 0x0A] @ ''participant A'')) ''stop''"
    by code_simp
  have p: "primary ascii_hex_encoder (''Actor Ren'' @ [CHR 0xE9, CHR 0x0A] @ ''participant A'')
        = Inl ''character out of range''"
    by (simp add: resolver_eval)
  have u: "useFallback (resolve ascii_hex_encoder None (''Actor Ren'' @ [CHR 0xE9, CHR 0x0A] @ ''participant A''))"
    by (rule resolve_failed_flag [OF p])
  have k: "classify (''Actor Ren'' @ [CHR 0xE9, CHR 0x0A] @ ''participant A'') = Usecase"
    by code_simp
  have n: "\<not> str_includes (simplifyUml None (''Actor Ren'' @ [CHR 0xE9, CHR 0x0A] @ ''participant A''))
          ''participant''"
    by (simp only: simplifyUml_shape k) (simp add: title_or_default_def unlines_def includes_eval)
  from a a1 a2 b c p u k n show ?thesis by blast
qed

section \<open>Properties of the completion parser\<close>

lemma first_parsed_None:
  "first_parsed parse stringify ms = None \<longleftrightarrow> (\<forall>m\<in>set ms. \<exists>d. parse m = Inl d)"
  by (induction ms) (auto split: sum.splits)

lemma first_parsed_Some:
  "first_parsed parse stringify ms = Some t \<longleftrightarrow>
     (\<exists>i<length ms. (\<forall>j<i. \<exists>d. parse (ms ! j) = Inl d)
        \<and> (\<exists>v. parse (ms ! i) = Inr v \<and> t = stringify v))"
proof (induction ms)
  case Nil
  then show ?case by simp
next
  case (Cons m ms)
  show ?case
  proof (cases "parse m")
    case (Inr v)
    then have "first_parsed parse stringify (m # ms) = Some (stringify v)" by simp
    moreover have "(\<exists>i<length (m # ms). (\<forall>j<i. \<exists>d. parse ((m # ms) ! j) = Inl d)
        \<and> (\<exists>v. parse ((m # ms) ! i) = Inr v \<and> t = stringify v)) \<longleftrightarrow> t = stringify v"
    proof
      assume "\<exists>i<length (m # ms). (\<forall>j<i. \<exists>d. parse ((m # ms) ! j) = Inl d)
        \<and> (\<exists>v. parse ((m # ms) ! i) = Inr v \<and> t = stringify v)"
      then obtain i where i: "\<forall>j<i. \<exists>d. parse ((m # ms) ! j) = Inl d"
        "\<exists>v. parse ((m # ms) ! i) = Inr v \<and> t = stringify v" by blast
      have "i = 0"
      proof (rule ccontr)
        assume "i \<noteq> 0"
        then have "0 < i" by simp
        with i(1) have "\<exists>d. parse ((m # ms) ! 0) = Inl d" by blast
        with Inr show False by simp
      qed
      with i(2) Inr show "t = stringify v" by simp
    next
      assume "t = stringify v"
      with Inr have "(\<forall>j<0. \<exists>d. parse ((m # ms) ! j) = Inl d)
        \<and> (\<exists>v. parse ((m # ms) ! 0) = Inr v \<and> t = stringify v)" by simp
      then show "\<exists>i<length (m # ms). (\<forall>j<i. \<exists>d. parse ((m # ms) ! j) = Inl d)
        \<and> (\<exists>v. parse ((m # ms) ! i) = Inr v \<and> t = stringify v)" by (intro exI [of _ 0]) simp
    qed
    ultimately show ?thesis by auto
  next
    case (Inl d)
    then have f: "first_parsed parse stringify (m # ms) = first_parsed parse stringify ms" by simp
    have "(\<exists>i<length (m # ms). (\<forall>j<i. \<exists>d. parse ((m # ms) ! j) = Inl d)
        \<and> (\<exists>v. parse ((m # ms) ! i) = Inr v \<and> t = stringify v))
      \<longleftrightarrow> (\<exists>i<length ms. (\<forall>j<i. \<exists>d. parse (ms ! j) = Inl d)
        \<and> (\<exists>v. parse (ms ! i) = Inr v \<and> t = stringify v))" (is "?L \<longleftrightarrow> ?R")
    proof
      assume ?L
      then obtain i where i: "i < length (m # ms)" "\<forall>j<i. \<exists>d. parse ((m # ms) ! j) = Inl d"
        "\<exists>v. parse ((m # ms) ! i) = Inr v \<and> t = stringify v" by blast
      from i(3) Inl have "i \<noteq> 0" by (cases i) auto
      then obtain k where k: "i = Suc k" by (cases i) auto
      from i(2) k have "\<forall>j<k. \<exists>d. parse (ms ! j) = Inl d" by auto
      moreover from i(3) k have "\<exists>v. parse (ms ! k) = Inr v \<and> t = stringify v" by simp
      moreover from i(1) k have "k < length ms" by simp
      ultimately show ?R by blast
    next
      assume ?R
      then obtain k where k: "k < length ms" "\<forall>j<k. \<exists>d. parse (ms ! j) = Inl d"
        "\<exists>v. parse (ms ! k) = Inr v \<and> t = stringify v" by blast
      have "\<forall>j<Suc k. \<exists>d. parse ((m # ms) ! j) = Inl d"
      proof (intro allI impI)
        fix j assume "j < Suc k"
        then show "\<exists>d. parse ((m # ms) ! j) = Inl d"
          using Inl k(2) by (cases j) auto
      qed
      moreover from k(3) have "\<exists>v. parse ((m # ms) ! Suc k) = Inr v \<and> t = stringify v" by simp
      moreover from k(1) have "Suc k < length (m # ms)" by simp
      ultimately show ?L by blast
    qed
    with f Cons.IH show ?thesis by simp
  qed
qed

lemma parseCompletion_direct:
  "parse (trim raw) = Inr v \<Longrightarrow> parseCompletion parse stringify raw = ([], Inr (stringify v))"
  by (simp add: parseCompletion_def)

lemma parseCompletion_repaired:
  "parse (trim raw) = Inl d1 \<Longrightarrow> parse (repairJSON (trim raw)) = Inr v \<Longrightarrow>
   parseCompletion parse stringify raw =
     ([''Initial parse failed, attempting repair...'',
       ''Repaired content: '' @ repairJSON (trim raw)], Inr (stringify v))"
  by (simp add: parseCompletion_def Let_def)

lemma parseCompletion_extracted:
  "parse (trim raw) = Inl d1 \<Longrightarrow> parse (repairJSON (trim raw)) = Inl d2 \<Longrightarrow>
   parseCompletion parse stringify raw =
     ([''Initial parse failed, attempting repair...'',
       ''Repaired content: '' @ repairJSON (trim raw),
       ''Repair parse failed, attempting final fallback...''],
      case first_parsed parse stringify (match_all jsonRegex (repairJSON (trim raw))) of
        Some s \<Rightarrow> Inr s
      | None \<Rightarrow> Inl (Error (''Failed to parse JSON after all repair attempts: '' @ d2)))"
  by (simp add: parseCompletion_def Let_def split: option.split)

lemma getGroqCompletion_content:
  "getGroqCompletion parse stringify (Inr raw) =
     (fst (parseCompletion parse stringify raw),
      case snd (parseCompletion parse stringify raw) of
        Inl err \<Rightarrow> Inl (Error (''Groq API Error: '' @ message err))
      | Inr text \<Rightarrow> Inr text)"
  by (simp add: getGroqCompletion_def split: prod.split sum.split)












text \<open>
  C3, as the code has it. The function throws exactly when the direct parse fails, the
  parse of the repaired text fails, and every candidate of the extraction fails to
  parse. The error then thrown is a plain \<open>Error\<close> whose message is a fixed prefix
  followed by the diagnostic of the parse of the repaired text (the second stage); the
  outer \<open>catch\<close> of \<open>getGroqCompletion\<close> puts \<open>Groq API Error: \<close> in front. The error
  carries neither the raw text nor the diagnostics of the candidates.
\<close>

theorem throws_iff_all_stages_fail:
  "((\<exists>e. snd (parseCompletion parse stringify raw) = Inl e) \<longleftrightarrow>
      (\<exists>d1. parse (trim raw) = Inl d1)
      \<and> (\<exists>d2. parse (repairJSON (trim raw)) = Inl d2)
      \<and> (\<forall>m\<in>set (match_all jsonRegex (repairJSON (trim raw))). \<exists>d. parse m = Inl d))
   \<and> (\<forall>e. snd (parseCompletion parse stringify raw) = Inl e \<longrightarrow>
         (\<exists>d2. parse (repairJSON (trim raw)) = Inl d2
            \<and> e = Error (''Failed to parse JSON after all repair attempts: '' @ d2)
            \<and> snd (getGroqCompletion parse stringify (Inr raw)) =
                Inl (Error (''Groq API Error: '' @ ''Failed to parse JSON after all repair attempts: '' @ d2))))"
proof (cases "parse (trim raw)")
  case (Inr v)
  then have "snd (parseCompletion parse stringify raw) = Inr (stringify v)"
    by (simp add: parseCompletion_direct)
  with Inr show ?thesis by simp
next
  case d1: (Inl d1)
  show ?thesis
  proof (cases "parse (repairJSON (trim raw))")
    case (Inr v)
    with d1 have "snd (parseCompletion parse stringify raw) = Inr (stringify v)"
      by (simp add: parseCompletion_repaired)
    with Inr show ?thesis by simp
  next
    case d2: (Inl d2)
    show ?thesis
    proof (cases "first_parsed parse stringify (match_all jsonRegex (repairJSON (trim raw)))")
      case None
      with d1 d2 have r: "snd (parseCompletion parse stringify raw) =
          Inl (Error (''Failed to parse JSON after all repair attempts: '' @ d2))"
        by (simp add: parseCompletion_extracted)
      then have g: "snd (getGroqCompletion parse stringify (Inr raw)) =
          Inl (Error (''Groq API Error: '' @ ''Failed to parse JSON after all repair attempts: '' @ d2))"
        by (simp add: getGroqCompletion_content)
      from None have "\<forall>m\<in>set (match_all jsonRegex (repairJSON (trim raw))). \<exists>d. parse m = Inl d"
        by (simp only: first_parsed_None)
      with d1 d2 r g show ?thesis by simp
    next
      case (Some t)
      with d1 d2 have r: "snd (parseCompletion parse stringify raw) = Inr t"
        by (simp add: parseCompletion_extracted)
      from Some have "\<not> (\<forall>m\<in>set (match_all jsonRegex (repairJSON (trim raw))). \<exists>d. parse m = Inl d)"
        using first_parsed_None [of parse stringify "match_all jsonRegex (repairJSON (trim raw))"]
        by simp
      with r show ?thesis by simp
    qed
  qed
qed

lemma w3_trim: \<open>trim ''{"a" 1} , {"bcd" 2}'' = ''{"a" 1} , {"bcd" 2}''\<close>
  by code_simp

lemma w3_repair: \<open>repairJSON ''{"a" 1} , {"bcd" 2}'' = ''{"a" 1} , {"bcd" 2}''\<close>
  by code_simp

lemma w3_parse: \<open>JSON_parse ''{"a" 1} , {"bcd" 2}'' = Inl ''Unexpected number in JSON at position 5''\<close>
  by code_simp

lemma w3_matches: \<open>match_all jsonRegex ''{"a" 1} , {"bcd" 2}'' = [''{"a" 1}'', ''{"bcd" 2}'']\<close>
  by code_simp

lemma w3_first: \<open>JSON_parse ''{"a" 1}'' = Inl ''Unexpected number in JSON at position 5''\<close>
  by code_simp

lemma w3_second: \<open>JSON_parse ''{"bcd" 2}'' = Inl ''Unexpected number in JSON at position 7''\<close>
  by code_simp

theorem throws_iff_all_stages_fail_witness:
  \<open>JSON_parse (trim ''{"a" 1} , {"bcd" 2}'') = Inl ''Unexpected number in JSON at position 5''
   \<and> JSON_parse (repairJSON (trim ''{"a" 1} , {"bcd" 2}'')) = Inl ''Unexpected number in JSON at position 5''
   \<and> match_all jsonRegex (repairJSON (trim ''{"a" 1} , {"bcd" 2}'')) = [''{"a" 1}'', ''{"bcd" 2}'']
   \<and> JSON_parse ''{"a" 1}'' = Inl ''Unexpected number in JSON at position 5''
   \<and> JSON_parse ''{"bcd" 2}'' = Inl ''Unexpected number in JSON at position 7''
   \<and> snd (getGroqCompletion JSON_parse JSON_stringify (Inr ''{"a" 1} , {"bcd" 2}'')) =
       Inl (Error (''Groq API Error: '' @ ''Failed to parse JSON after all repair attempts: ''
                   @ ''Unexpected number in JSON at position 5''))\<close>
proof -
  have p1: "JSON_parse (trim ''{\"a\" 1} , {\"bcd\" 2}'') = Inl ''Unexpected number in JSON at position 5''"
    by (simp only: w3_trim w3_parse)
  have p2: "JSON_parse (repairJSON (trim ''{\"a\" 1} , {\"bcd\" 2}'')) = Inl ''Unexpected number in JSON at position 5''"
    by (simp only: w3_trim w3_repair w3_parse)
  have m: "match_all jsonRegex (repairJSON (trim ''{\"a\" 1} , {\"bcd\" 2}'')) = [''{\"a\" 1}'', ''{\"bcd\" 2}'']"
    by (simp only: w3_trim w3_repair w3_matches)
  have all: "\<forall>m\<in>set (match_all jsonRegex (repairJSON (trim ''{\"a\" 1} , {\"bcd\" 2}''))). \<exists>d. JSON_parse m = Inl d"
    unfolding m using w3_first w3_second by simp
  note t = throws_iff_all_stages_fail
    [where parse = JSON_parse and stringify = JSON_stringify and raw = "''{\"a\" 1} , {\"bcd\" 2}''"]
  from t p1 p2 all obtain e where e: "snd (parseCompletion JSON_parse JSON_stringify ''{\"a\" 1} , {\"bcd\" 2}'') = Inl e"
    by blast
  with t obtain d2 where "JSON_parse (repairJSON (trim ''{\"a\" 1} , {\"bcd\" 2}'')) = Inl d2"
    and g: "snd (getGroqCompletion JSON_parse JSON_stringify (Inr ''{\"a\" 1} , {\"bcd\" 2}'')) =
       Inl (Error (''Groq API Error: '' @ ''Failed to parse JSON after all repair attempts: '' @ d2))"
    by blast
  with p2 have "d2 = ''Unexpected number in JSON at position 5''" by simp
  with g have "snd (getGroqCompletion JSON_parse JSON_stringify (Inr ''{\"a\" 1} , {\"bcd\" 2}'')) =
       Inl (Error (''Groq API Error: '' @ ''Failed to parse JSON after all repair attempts: ''
                   @ ''Unexpected number in JSON at position 5''))"
    by (simp only:)
  with p1 p2 m w3_first w3_second show ?thesis by blast
qed

lemma getGroqCompletion_unparsed:
  "parse (trim raw) = Inl d1 \<Longrightarrow> parse (repairJSON (trim raw)) = Inl d2 \<Longrightarrow>
   match_all jsonRegex (repairJSON (trim raw)) = [] \<Longrightarrow>
   snd (getGroqCompletion parse stringify (Inr raw)) =
     Inl (Error (''Groq API Error: '' @ ''Failed to parse JSON after all repair attempts: '' @ d2))"
  by (simp add: getGroqCompletion_content parseCompletion_extracted)

lemma c3_trim_tagged: \<open>trim ''<b>hello</b>'' = ''<b>hello</b>''\<close>
  by code_simp

lemma c3_trim_plain: \<open>trim ''hello'' = ''hello''\<close>
  by code_simp

lemma c3_parse_tagged: \<open>JSON_parse ''<b>hello</b>'' = Inl ''Unexpected token < in JSON at position 0''\<close>
  by code_simp

lemma c3_parse_plain: \<open>JSON_parse ''hello'' = Inl ''Unexpected token h in JSON at position 0''\<close>
  by code_simp

lemma c3_repair_tagged: \<open>repairJSON ''<b>hello</b>'' = ''hello''\<close>
  by code_simp

lemma c3_repair_plain: \<open>repairJSON ''hello'' = ''hello''\<close>
  by code_simp

lemma c3_matches: \<open>match_all jsonRegex ''hello'' = []\<close>
  by code_simp

lemma c3_message:
  "''Groq API Error: '' @ ''Failed to parse JSON after all repair attempts: ''
     @ ''Unexpected token h in JSON at position 0''
   = ''Groq API Error: Failed to parse JSON after all repair attempts: Unexpected token h in JSON at position 0''"
  by simp

lemma c3_absent:
  \<open>\<not> str_includes
       ''Groq API Error: Failed to parse JSON after all repair attempts: Unexpected token h in JSON at position 0''
       ''<b>hello</b>''\<close>
  by code_simp

theorem error_without_raw_text_counterexample:
  \<open>snd (getGroqCompletion JSON_parse JSON_stringify (Inr ''<b>hello</b>'')) =
     Inl (Error ''Groq API Error: Failed to parse JSON after all repair attempts: Unexpected token h in JSON at position 0'')
   \<and> snd (getGroqCompletion JSON_parse JSON_stringify (Inr ''hello'')) =
     Inl (Error ''Groq API Error: Failed to parse JSON after all repair attempts: Unexpected token h in JSON at position 0'')
   \<and> \<not> str_includes
       ''Groq API Error: Failed to parse JSON after all repair attempts: Unexpected token h in JSON at position 0''
       ''<b>hello</b>''\<close>
proof -
  have p1: "JSON_parse (trim ''<b>hello</b>'') = Inl ''Unexpected token < in JSON at position 0''"
    by (simp only: c3_trim_tagged c3_parse_tagged)
  have p2: "JSON_parse (repairJSON (trim ''<b>hello</b>'')) = Inl ''Unexpected token h in JSON at position 0''"
    by (simp only: c3_trim_tagged c3_repair_tagged c3_parse_plain)
  have m: "match_all jsonRegex (repairJSON (trim ''<b>hello</b>'')) = []"
    by (simp only: c3_trim_tagged c3_repair_tagged c3_matches)
  have q1: "JSON_parse (trim ''hello'') = Inl ''Unexpected token h in JSON at position 0''"
    by (simp only: c3_trim_plain c3_parse_plain)
  have q2: "JSON_parse (repairJSON (trim ''hello'')) = Inl ''Unexpected token h in JSON at position 0''"
    by (simp only: c3_trim_plain c3_repair_plain c3_parse_plain)
  have n: "match_all jsonRegex (repairJSON (trim ''hello'')) = []"
    by (simp only: c3_trim_plain c3_repair_plain c3_matches)
  have g: "snd (getGroqCompletion JSON_parse JSON_stringify (Inr ''<b>hello</b>'')) =
     Inl (Error ''Groq API Error: Failed to parse JSON after all repair attempts: Unexpected token h in JSON at position 0'')"
    using getGroqCompletion_unparsed [where parse = JSON_parse and stringify = JSON_stringify, OF p1 p2 m]
    by (simp only: c3_message)
  have h: "snd (getGroqCompletion JSON_parse JSON_stringify (Inr ''hello'')) =
     Inl (Error ''Groq API Error: Failed to parse JSON after all repair attempts: Unexpected token h in JSON at position 0'')"
    using getGroqCompletion_unparsed [where parse = JSON_parse and stringify = JSON_stringify, OF q1 q2 n]
    by (simp only: c3_message)
  from g h c3_absent show ?thesis by (intro conjI)
qed

section \<open>Properties of the repair pass\<close>

lemma indexOf_Some: "indexOf s c = Some i \<Longrightarrow> i < length s \<and> s ! i = c"
  by (induction s arbitrary: i) (auto split: if_splits)

lemma lastIndexOf_Some:
  assumes "lastIndexOf s c = Some l"
  shows "l < length s \<and> s ! l = c"
proof -
  from assms obtain i where i: "indexOf (rev s) c = Some i" and l: "l = length s - 1 - i"
    by (auto simp: lastIndexOf_def)
  from indexOf_Some [OF i] have b: "i < length s" and v: "rev s ! i = c" by simp_all
  from b have "rev s ! i = s ! (length s - Suc i)" by (rule rev_nth)
  with v l b show ?thesis by simp
qed

lemma lastIndexOf_last:
  assumes "s \<noteq> []" and "last s = c"
  shows "lastIndexOf s c = Some (length s - 1)"
proof -
  from assms have e: "rev s = c # rev (butlast s)"
    by (metis append_butlast_last_id rev.simps(2) rev_append rev_singleton_conv append_Cons append_Nil)
  show ?thesis unfolding lastIndexOf_def e by simp
qed

lemma slice_braces:
  assumes f: "indexOf s CHR ''{'' = Some f" and l: "lastIndexOf s CHR ''}'' = Some l" and fl: "f \<le> l"
  shows "\<exists>r. slice s f (l + 1) = CHR ''{'' # r \<and> last (CHR ''{'' # r) = CHR ''}''"
proof -
  from indexOf_Some [OF f] have fs: "f < length s" and sf: "s ! f = CHR ''{''" by simp_all
  from lastIndexOf_Some [OF l] have ls: "l < length s" and sl: "s ! l = CHR ''}''" by simp_all
  from fl have n: "Suc l - f = Suc (l - f)" by simp
  from fs have d: "drop f s = s ! f # drop (Suc f) s" by (simp add: Cons_nth_drop_Suc)
  have hd: "slice s f (l + 1) = CHR ''{'' # take (l - f) (drop (Suc f) s)"
    by (simp add: slice_def n d sf)
  from ls fl have "l - f < length (drop f s)" by simp
  then have "take (Suc (l - f)) (drop f s) = take (l - f) (drop f s) @ [drop f s ! (l - f)]"
    by (rule take_Suc_conv_app_nth)
  moreover from fl ls have "drop f s ! (l - f) = s ! l" by simp
  ultimately have "last (slice s f (l + 1)) = CHR ''}''"
    by (simp add: slice_def n sl)
  with hd show ?thesis by metis
qed

lemma truncate_braces_enclosed:
  assumes "last (CHR ''{'' # r) = CHR ''}''"
  shows "truncate_braces (CHR ''{'' # r) = CHR ''{'' # r"
proof -
  have "lastIndexOf (CHR ''{'' # r) CHR ''}'' = Some (length (CHR ''{'' # r) - 1)"
    using assms by (intro lastIndexOf_last) simp_all
  then show ?thesis
    by (simp add: truncate_braces_def slice_def)
qed

lemma truncate_braces_idempotent:
  "truncate_braces (truncate_braces s) = truncate_braces s"
proof (cases "indexOf s CHR ''{''")
  case None
  then have "truncate_braces s = s" by (simp add: truncate_braces_def)
  then show ?thesis by simp
next
  case f: (Some f)
  show ?thesis
  proof (cases "lastIndexOf s CHR ''}''")
    case None
    with f have "truncate_braces s = s" by (simp add: truncate_braces_def)
    then show ?thesis by simp
  next
    case l: (Some l)
    with f have t: "truncate_braces s = slice s f (l + 1)" by (simp add: truncate_braces_def)
    show ?thesis
    proof (cases "f \<le> l")
      case True
      from slice_braces [OF f l True] obtain r
        where r: "slice s f (l + 1) = CHR ''{'' # r" and e: "last (CHR ''{'' # r) = CHR ''}''"
        by blast
      from truncate_braces_enclosed [OF e]
      have "truncate_braces (slice s f (l + 1)) = slice s f (l + 1)" by (simp only: r)
      then show ?thesis by (simp only: t)
    next
      case False
      then have "slice s f (l + 1) = []" by (simp add: slice_def)
      with t have "truncate_braces s = []" by simp
      moreover have "truncate_braces [] = []" by (simp add: truncate_braces_def)
      ultimately show ?thesis by simp
    qed
  qed
qed

subsection \<open>Matches of the patterns of the repair pass\<close>

lemma star_suffix:
  assumes "\<And>st st'. st' \<in> set (f st) \<Longrightarrow> suffix (snd st') (snd st)"
  shows "st' \<in> set (star f n st) \<Longrightarrow> suffix (snd st') (snd st)"
proof (induction n arbitrary: st)
  case 0
  then show ?case by simp
next
  case (Suc n)
  from Suc.prems consider "st' = st"
    | st1 where "st1 \<in> set (f st)" "st' \<in> set (star f n st1)"
    by (auto split: if_splits)
  then show ?case
  proof cases
    case 1
    then show ?thesis by simp
  next
    case 2
    from Suc.IH [OF 2(2)] assms [OF 2(1)] show ?thesis by (rule suffix_order.trans)
  qed
qed

lemma rx_match_suffix: "st' \<in> set (rx_match r st) \<Longrightarrow> suffix (snd st') (snd st)"
proof (induction r arbitrary: st st')
  case (Chr P)
  then show ?case by (cases st) (auto split: list.splits if_splits simp: suffix_Cons)
next
  case Eps
  then show ?case by simp
next
  case (Seq a b)
  from Seq.prems obtain st1 where "st1 \<in> set (rx_match a st)" "st' \<in> set (rx_match b st1)" by auto
  with Seq.IH show ?case by (meson suffix_order.trans)
next
  case (Alt a b)
  from Alt.prems have "st' \<in> set (rx_match a st) \<or> st' \<in> set (rx_match b st)" by simp
  then show ?case using Alt.IH by blast
next
  case (Star a)
  from Star.prems have "st' \<in> set (star (rx_match a) (length (snd st)) st)" by simp
  then show ?case by (rule star_suffix [rotated]) (rule Star.IH)
next
  case (Group n a)
  then show ?case by (cases st) fastforce
next
  case Eos
  then show ?case by (cases st) (auto split: if_splits)
qed

lemma exec_at_suffix: "exec_at r s = Some (c, rest) \<Longrightarrow> suffix rest s"
proof -
  assume "exec_at r s = Some (c, rest)"
  then have "(c, rest) \<in> set (rx_match r (Map.empty, s))"
    by (auto simp: exec_at_def split: list.splits)
  from rx_match_suffix [OF this] show ?thesis by simp
qed

lemma star_Chr_Nil: "star (rx_match (Chr P)) n (c, []) = [(c, [])]"
  by (cases n) simp_all

lemma star_Chr_Cons:
  "star (rx_match (Chr P)) (Suc n) (c, x # xs) =
     (if P x then star (rx_match (Chr P)) n (c, xs) else []) @ [(c, x # xs)]"
  by simp

lemma star_Chr_head:
  "\<exists>sts. star (rx_match (Chr P)) (length s) (c, s) = (c, dropWhile P s) # sts"
proof (induction s)
  case Nil
  then show ?case by simp
next
  case (Cons x xs)
  then show ?case by (auto simp: star_Chr_Cons)
qed

lemma match_lit:
  "rx_match (lit w) (c, s) = (if prefix w s then [(c, drop (length w) s)] else [])"
proof (induction w arbitrary: s)
  case Nil
  then show ?case by simp
next
  case (Cons x w)
  show ?case
  proof (cases s)
    case Nil
    then show ?thesis by (simp add: chr_def)
  next
    case (Cons y ys)
    with Cons.IH [of ys] show ?thesis by (simp add: chr_def)
  qed
qed

lemma match_opt:
  "rx_match (opt (chr x)) (c, s) =
     (case s of [] \<Rightarrow> [(c, [])] | y # ys \<Rightarrow> if y = x then [(c, ys), (c, y # ys)] else [(c, y # ys)])"
  by (simp add: opt_def chr_def split: list.split)

lemma match_fence:
  "rx_match rx_fence (c, s) =
     (if prefix [BQ, BQ, BQ] s
      then (case drop 3 s of [] \<Rightarrow> [(c, [])]
            | y # ys \<Rightarrow> if y = LF then [(c, ys), (c, y # ys)] else [(c, y # ys)])
      else [])"
proof -
  have "rx_match rx_fence (c, s) =
      concat (map (rx_match (opt (chr LF))) (rx_match (lit [BQ, BQ, BQ]) (c, s)))"
    by (simp add: rx_fence_def)
  also have "\<dots> = (if prefix [BQ, BQ, BQ] s then rx_match (opt (chr LF)) (c, drop 3 s) else [])"
    unfolding match_lit by (simp add: numeral_3_eq_3)
  finally show ?thesis
    unfolding match_opt .
qed

lemma exec_at_fence:
  "exec_at rx_fence s =
     (if prefix [BQ, BQ, BQ] s
      then Some (Map.empty, case drop 3 s of [] \<Rightarrow> [] | y # ys \<Rightarrow> if y = LF then ys else y # ys)
      else None)"
  unfolding exec_at_def match_fence by (simp split: list.split)

lemma exec_at_fence_json:
  "exec_at rx_fence_json s = Some (c, rest) \<Longrightarrow> prefix [BQ, BQ, BQ] s"
proof -
  assume a: "exec_at rx_fence_json s = Some (c, rest)"
  have "rx_match rx_fence_json (Map.empty, s) =
      concat (map (rx_match (Seq (lit ''json'') (Seq (opt (chr LF)) Eps)))
                  (rx_match (lit [BQ, BQ, BQ]) (Map.empty, s)))"
    by (simp add: rx_fence_json_def)
  with a show ?thesis
    unfolding exec_at_def match_lit
    by (auto split: if_splits)
qed

lemma exec_at_spaces:
  "exec_at rx_spaces s =
     (case s of [] \<Rightarrow> None
      | x # xs \<Rightarrow> if is_space x then Some (Map.empty, dropWhile is_space xs) else None)"
proof (cases s)
  case Nil
  then show ?thesis by (simp add: exec_at_def rx_spaces_def plus_def space_def)
next
  case (Cons x xs)
  from star_Chr_head [of is_space xs Map.empty] obtain sts
    where "star (rx_match (Chr is_space)) (length xs) (Map.empty, xs) = (Map.empty, dropWhile is_space xs) # sts"
    by blast
  with Cons show ?thesis by (simp add: exec_at_def rx_spaces_def plus_def space_def)
qed

lemma tag_close:
  "concat (map (rx_match (Seq (chr CHR ''>'') Eps))
               (star (rx_match (Chr (\<lambda>z. z \<noteq> CHR ''>''))) (length ys) (c, ys))) =
     (if CHR ''>'' \<in> set ys then [(c, tl (dropWhile (\<lambda>z. z \<noteq> CHR ''>'') ys))] else [])"
proof (induction ys)
  case Nil
  then show ?case by (simp add: chr_def)
next
  case (Cons y ys)
  then show ?case by (auto simp: star_Chr_Cons chr_def)
qed

lemma exec_at_tag:
  "exec_at rx_tag s =
     (case s of
        x # y # ys \<Rightarrow>
          if x = CHR ''<'' \<and> y \<noteq> CHR ''>'' \<and> CHR ''>'' \<in> set ys
          then Some (Map.empty, tl (dropWhile (\<lambda>z. z \<noteq> CHR ''>'') ys)) else None
      | _ \<Rightarrow> None)"
proof -
  have n: "none_of ''>'' = Chr (\<lambda>z. z \<noteq> CHR ''>'')"
    by (simp add: none_of_def)
  show ?thesis
  proof (cases s)
    case Nil
    then show ?thesis by (simp add: exec_at_def rx_tag_def chr_def)
  next
    case s: (Cons x t)
    show ?thesis
    proof (cases t)
      case Nil
      with s show ?thesis by (simp add: exec_at_def rx_tag_def chr_def plus_def n)
    next
      case (Cons y ys)
      have "rx_match rx_tag (Map.empty, x # y # ys) =
          (if x = CHR ''<'' \<and> y \<noteq> CHR ''>''
           then concat (map (rx_match (Seq (chr CHR ''>'') Eps))
                  (star (rx_match (Chr (\<lambda>z. z \<noteq> CHR ''>''))) (length ys) (Map.empty, ys)))
           else [])"
        by (simp add: rx_tag_def plus_def n) (simp add: chr_def)
      with s Cons show ?thesis
        unfolding exec_at_def tag_close by simp
    qed
  qed
qed

subsection \<open>Idempotent stages of the repair pass\<close>

lemma replace_all_delete_Nil: "replace_all r [] [] = []"
  by (subst replace_all.simps) (simp split: option.split)

lemma replace_all_delete_set: "set (replace_all r [] s) \<subseteq> set s"
proof (induction s rule: length_induct)
  case (1 s)
  show ?case
  proof (cases "exec_at r s")
    case None
    show ?thesis
    proof (cases s)
      case Nil
      then show ?thesis by (simp add: replace_all_delete_Nil)
    next
      case (Cons x xs)
      with None have "replace_all r [] s = x # replace_all r [] xs"
        by (subst replace_all.simps) simp
      moreover from 1 Cons have "set (replace_all r [] xs) \<subseteq> set xs" by simp
      ultimately show ?thesis using Cons by auto
    qed
  next
    case (Some st)
    obtain c rest where st: "st = (c, rest)" by (cases st)
    show ?thesis
    proof (cases "length rest < length s")
      case True
      with Some st have "replace_all r [] s = replace_all r [] rest"
        by (subst replace_all.simps) simp
      moreover from 1 True have "set (replace_all r [] rest) \<subseteq> set rest" by simp
      moreover from exec_at_suffix [of r s c rest] Some st have "set rest \<subseteq> set s"
        by (simp add: set_mono_suffix)
      ultimately show ?thesis by auto
    next
      case False
      show ?thesis
      proof (cases s)
        case Nil
        then show ?thesis by (simp add: replace_all_delete_Nil)
      next
        case (Cons x xs)
        with Some st False have "replace_all r [] s = x # replace_all r [] xs"
          by (subst replace_all.simps) simp
        moreover from 1 Cons have "set (replace_all r [] xs) \<subseteq> set xs" by simp
        ultimately show ?thesis using Cons by auto
      qed
    qed
  qed
qed

lemma replace_all_no_match: "no_match r s \<Longrightarrow> replace_all r t s = s"
proof (induction s)
  case Nil
  then show ?case by (subst replace_all.simps) simp
next
  case (Cons x xs)
  then show ?case by (subst replace_all.simps) simp
qed

lemma no_match_suffix: "suffix t s \<Longrightarrow> no_match r s \<Longrightarrow> no_match r t"
proof (induction s)
  case Nil
  then show ?case by simp
next
  case (Cons x xs)
  from Cons.prems(1) have "t = x # xs \<or> suffix t xs" by (simp add: suffix_Cons)
  with Cons show ?case by auto
qed

text \<open>The whitespace stage.\<close>

lemma spaces_Nil: "replace_all rx_spaces t [] = []"
  by (subst replace_all.simps) (simp add: exec_at_spaces)

lemma spaces_Cons:
  "replace_all rx_spaces t (x # xs) =
     (if is_space x then expand t Map.empty @ replace_all rx_spaces t (dropWhile is_space xs)
      else x # replace_all rx_spaces t xs)"
proof -
  have "length (dropWhile is_space xs) < Suc (length xs)"
    using length_dropWhile_le [of is_space xs] by simp
  then show ?thesis
    by (subst replace_all.simps) (simp add: exec_at_spaces)
qed

lemma single_spaced_tl: "single_spaced (x # t) \<Longrightarrow> single_spaced t"
  by (cases t) simp_all

lemma single_spaced_Cons: "\<not> is_space x \<Longrightarrow> single_spaced t \<Longrightarrow> single_spaced (x # t)"
  by (cases t) simp_all

lemma single_spaced_fixed:
  "single_spaced s \<Longrightarrow> replace_all rx_spaces [Txt '' ''] s = s"
proof (induction s rule: single_spaced.induct)
  case 1
  then show ?case by (simp add: spaces_Nil)
next
  case (2 x)
  then show ?case by (simp add: spaces_Cons spaces_Nil)
next
  case (3 x y zs)
  then show ?case by (auto simp: spaces_Cons)
qed

lemma single_spaced_spaces: "single_spaced (replace_all rx_spaces [Txt '' ''] s)"
proof (induction s rule: length_induct)
  case (1 s)
  show ?case
  proof (cases s)
    case Nil
    then show ?thesis by (simp add: spaces_Nil)
  next
    case (Cons x xs)
    show ?thesis
    proof (cases "is_space x")
      case False
      from 1 Cons have "single_spaced (replace_all rx_spaces [Txt '' ''] xs)" by simp
      with False Cons show ?thesis by (simp add: spaces_Cons single_spaced_Cons)
    next
      case True
      let ?d = "dropWhile is_space xs"
      have r: "replace_all rx_spaces [Txt '' ''] s = CHR '' '' # replace_all rx_spaces [Txt '' ''] ?d"
        using True Cons by (simp add: spaces_Cons)
      have "length ?d < length s"
        using length_dropWhile_le [of is_space xs] Cons by simp
      with 1 have ih: "single_spaced (replace_all rx_spaces [Txt '' ''] ?d)" by simp
      show ?thesis
      proof (cases ?d)
        case Nil
        with r show ?thesis by (simp add: spaces_Nil)
      next
        case d: (Cons y ys)
        then have "\<not> is_space y"
          using hd_dropWhile [of is_space xs] by simp
        with d have e: "replace_all rx_spaces [Txt '' ''] ?d = y # replace_all rx_spaces [Txt '' ''] ys"
          by (simp add: spaces_Cons)
        from ih e \<open>\<not> is_space y\<close> r show ?thesis by simp
      qed
    qed
  qed
qed

lemma single_spaced_dropWhile: "single_spaced s \<Longrightarrow> single_spaced (dropWhile P s)"
proof (induction s)
  case Nil
  then show ?case by simp
next
  case (Cons x xs)
  from single_spaced_tl [OF Cons.prems] Cons.IH Cons.prems show ?case by simp
qed

lemma single_spaced_butlast: "single_spaced (xs @ [z]) \<Longrightarrow> single_spaced xs"
proof (induction xs rule: single_spaced.induct)
  case 1
  then show ?case by simp
next
  case (2 x)
  then show ?case by simp
next
  case (3 x y zs)
  then show ?case by simp
qed

lemma single_spaced_dropWhile_end:
  "single_spaced s \<Longrightarrow> single_spaced (rev (dropWhile P (rev s)))"
proof (induction s rule: rev_induct)
  case Nil
  then show ?case by simp
next
  case (snoc z xs)
  from single_spaced_butlast [OF snoc.prems] snoc.IH snoc.prems show ?case by simp
qed

lemma single_spaced_trim: "single_spaced s \<Longrightarrow> single_spaced (trim s)"
  unfolding trim_def by (intro single_spaced_dropWhile_end single_spaced_dropWhile)

lemma last_dropWhile: "dropWhile P xs \<noteq> [] \<Longrightarrow> last (dropWhile P xs) = last xs"
  by (induction xs) (auto split: if_splits)

lemma trim_ends: "trim s = [] \<or> (\<not> is_space (hd (trim s)) \<and> \<not> is_space (last (trim s)))"
proof (cases "trim s = []")
  case True
  then show ?thesis by simp
next
  case False
  let ?u = "dropWhile is_space s"
  let ?w = "dropWhile is_space (rev ?u)"
  from False have w: "?w \<noteq> []" by (simp add: trim_def)
  have u: "?u \<noteq> []"
  proof
    assume e: "?u = []"
    from w show False unfolding e by simp
  qed
  from w have "\<not> is_space (hd ?w)" by (rule hd_dropWhile)
  with w have l: "\<not> is_space (last (trim s))" by (simp add: trim_def last_rev)
  from w have "last ?w = last (rev ?u)" by (rule last_dropWhile)
  with u have "last ?w = hd ?u" by (simp add: last_rev)
  moreover from u have "\<not> is_space (hd ?u)" by (rule hd_dropWhile)
  ultimately have "\<not> is_space (hd (trim s))" using w by (simp add: trim_def hd_rev)
  with l show ?thesis by simp
qed

lemma trim_fixed: "s = [] \<or> (\<not> is_space (hd s) \<and> \<not> is_space (last s)) \<Longrightarrow> trim s = s"
proof (cases "s = []")
  case True
  then show ?thesis by (simp add: trim_def)
next
  case False
  assume "s = [] \<or> (\<not> is_space (hd s) \<and> \<not> is_space (last s))"
  with False have h: "\<not> is_space (hd s)" and l: "\<not> is_space (last s)" by simp_all
  from h have "dropWhile is_space s = s" by (simp add: dropWhile_eq_self_iff)
  moreover from l False have "\<not> is_space (hd (rev s))" by (simp add: hd_rev)
  then have "dropWhile is_space (rev s) = rev s" by (simp add: dropWhile_eq_self_iff)
  ultimately show ?thesis by (simp add: trim_def)
qed

lemma trim_idempotent: "trim (trim s) = trim s"
  by (rule trim_fixed) (rule trim_ends)

lemma clean_whitespace_idempotent: "clean_whitespace (clean_whitespace s) = clean_whitespace s"
proof -
  let ?r = "replace_all rx_spaces [Txt '' ''] s"
  have "single_spaced (trim ?r)"
    by (intro single_spaced_trim single_spaced_spaces)
  then have "replace_all rx_spaces [Txt '' ''] (trim ?r) = trim ?r"
    by (rule single_spaced_fixed)
  then show ?thesis
    by (simp add: clean_whitespace_def trim_idempotent)
qed

text \<open>The stage that strips tags and fences.\<close>

lemma no_match_tag_Cons:
  "exec_at rx_tag (x # t) = None \<longleftrightarrow>
     \<not> (x = CHR ''<'' \<and> t \<noteq> [] \<and> hd t \<noteq> CHR ''>'' \<and> CHR ''>'' \<in> set (tl t))"
  by (cases t) (simp_all add: exec_at_tag)

lemma exec_at_tag_Nil: "exec_at rx_tag [] = None"
  by (simp add: exec_at_tag)

lemma exec_at_tag_shorter: "exec_at rx_tag s = Some (c, rest) \<Longrightarrow> length rest < length s"
proof -
  assume a: "exec_at rx_tag s = Some (c, rest)"
  then obtain x y ys where s: "s = x # y # ys"
    and r: "rest = tl (dropWhile (\<lambda>z. z \<noteq> CHR ''>'') ys)"
    by (auto simp: exec_at_tag split: list.splits if_splits)
  have "length (dropWhile (\<lambda>z. z \<noteq> CHR ''>'') ys) \<le> length ys"
    by (rule length_dropWhile_le)
  with s r show ?thesis by simp
qed

lemma exec_at_tag_head: "exec_at rx_tag s = Some (c, rest) \<Longrightarrow> s \<noteq> [] \<and> hd s \<noteq> CHR ''>''"
  by (auto simp: exec_at_tag split: list.splits if_splits)

lemma prefix2: "prefix [a, b] s \<longleftrightarrow> (\<exists>t. s = a # b # t)"
  by (auto simp: prefix_def)

lemma prefix3: "prefix [a, b, c] s \<longleftrightarrow> (\<exists>t. s = a # b # c # t)"
  by (auto simp: prefix_def)

lemma exec_at_fence_None: "\<not> prefix [BQ, BQ, BQ] s \<Longrightarrow> exec_at rx_fence s = None"
  by (simp add: exec_at_fence)

lemma exec_at_fence_prefix: "exec_at rx_fence s = Some (c, rest) \<Longrightarrow> prefix [BQ, BQ, BQ] s"
  by (cases "prefix [BQ, BQ, BQ] s") (simp_all add: exec_at_fence_None)

lemma exec_at_fence_head: "exec_at rx_fence s = Some (c, rest) \<Longrightarrow> s \<noteq> [] \<and> hd s \<noteq> CHR ''>''"
  using exec_at_fence_prefix [of s c rest] by (auto simp: prefix3)

lemma exec_at_fence_json_head:
  "exec_at rx_fence_json s = Some (c, rest) \<Longrightarrow> s \<noteq> [] \<and> hd s \<noteq> CHR ''>''"
  using exec_at_fence_json [of s c rest] by (auto simp: prefix3)

lemma tag_head_kept:
  assumes del: "\<And>s c rest. exec_at r s = Some (c, rest) \<Longrightarrow> s \<noteq> [] \<and> hd s \<noteq> CHR ''>''"
    and n: "exec_at rx_tag (x # t) = None"
  shows "exec_at rx_tag (x # replace_all r [] t) = None"
proof (cases "x = CHR ''<''")
  case False
  then show ?thesis by (simp add: no_match_tag_Cons)
next
  case True
  with n have c: "t = [] \<or> hd t = CHR ''>'' \<or> CHR ''>'' \<notin> set (tl t)"
    by (auto simp: no_match_tag_Cons)
  show ?thesis
  proof (cases t)
    case Nil
    then show ?thesis by (simp add: replace_all_delete_Nil no_match_tag_Cons)
  next
    case (Cons y u)
    show ?thesis
    proof (cases "y = CHR ''>''")
      case y: True
      have "exec_at r t = None"
      proof (cases "exec_at r t")
        case None
        then show ?thesis .
      next
        case (Some st)
        obtain c' rest where "st = (c', rest)" by (cases st)
        with Some del [of t c' rest] Cons y show ?thesis by simp
      qed
      with Cons have "replace_all r [] t = y # replace_all r [] u"
        by (subst replace_all.simps) simp
      with y show ?thesis by (simp add: no_match_tag_Cons)
    next
      case False
      with c Cons have "CHR ''>'' \<notin> set t" by simp
      with replace_all_delete_set [of r t] have "CHR ''>'' \<notin> set (replace_all r [] t)" by auto
      then have "replace_all r [] t = [] \<or> CHR ''>'' \<notin> set (tl (replace_all r [] t))"
        by (cases "replace_all r [] t") simp_all
      then show ?thesis by (auto simp: no_match_tag_Cons)
    qed
  qed
qed

lemma tags_removed: "no_match rx_tag (replace_all rx_tag [] s)"
proof (induction s rule: length_induct)
  case (1 s)
  show ?case
  proof (cases "exec_at rx_tag s")
    case None
    show ?thesis
    proof (cases s)
      case Nil
      then show ?thesis by (simp add: replace_all_delete_Nil exec_at_tag_Nil)
    next
      case (Cons x t)
      with None have e: "replace_all rx_tag [] s = x # replace_all rx_tag [] t"
        by (subst replace_all.simps) simp
      from None Cons have "exec_at rx_tag (x # replace_all rx_tag [] t) = None"
        by (intro tag_head_kept exec_at_tag_head) simp_all
      moreover from 1 Cons have "no_match rx_tag (replace_all rx_tag [] t)" by simp
      ultimately show ?thesis by (simp add: e)
    qed
  next
    case (Some st)
    obtain c rest where st: "st = (c, rest)" by (cases st)
    with Some have l: "length rest < length s" by (intro exec_at_tag_shorter) simp
    with Some st have "replace_all rx_tag [] s = replace_all rx_tag [] rest"
      by (subst replace_all.simps) simp
    with 1 l show ?thesis by simp
  qed
qed

lemma tags_stay_removed:
  assumes del: "\<And>s c rest. exec_at r s = Some (c, rest) \<Longrightarrow> s \<noteq> [] \<and> hd s \<noteq> CHR ''>''"
  shows "no_match rx_tag s \<Longrightarrow> no_match rx_tag (replace_all r [] s)"
proof (induction s rule: length_induct)
  case (1 s)
  have step: "no_match rx_tag (x # replace_all r [] t)" if "s = x # t" for x t
  proof -
    from that "1.prems" have n: "exec_at rx_tag (x # t) = None" and m: "no_match rx_tag t" by simp_all
    from del n have "exec_at rx_tag (x # replace_all r [] t) = None" by (rule tag_head_kept)
    moreover from 1 that m have "no_match rx_tag (replace_all r [] t)" by simp
    ultimately show ?thesis by simp
  qed
  show ?case
  proof (cases "exec_at r s")
    case None
    show ?thesis
    proof (cases s)
      case Nil
      then show ?thesis by (simp add: replace_all_delete_Nil exec_at_tag_Nil)
    next
      case (Cons x t)
      with None have "replace_all r [] s = x # replace_all r [] t"
        by (subst replace_all.simps) simp
      with step [OF Cons] show ?thesis by simp
    qed
  next
    case (Some st)
    obtain c rest where st: "st = (c, rest)" by (cases st)
    show ?thesis
    proof (cases "length rest < length s")
      case True
      with Some st have e: "replace_all r [] s = replace_all r [] rest"
        by (subst replace_all.simps) simp
      from Some st have "suffix rest s" by (intro exec_at_suffix) simp
      from no_match_suffix [OF this "1.prems"] 1 True show ?thesis by (simp add: e)
    next
      case False
      show ?thesis
      proof (cases s)
        case Nil
        then show ?thesis by (simp add: replace_all_delete_Nil exec_at_tag_Nil)
      next
        case (Cons x t)
        with Some st False have "replace_all r [] s = x # replace_all r [] t"
          by (subst replace_all.simps) simp
        with step [OF Cons] show ?thesis by simp
      qed
    qed
  qed
qed

lemma fence_Cons:
  assumes "\<not> prefix [BQ, BQ, BQ] (x # xs)"
  shows "replace_all rx_fence [] (x # xs) = x # replace_all rx_fence [] xs"
proof -
  from assms have n: "exec_at rx_fence (x # xs) = None" by (rule exec_at_fence_None)
  show ?thesis by (subst replace_all.simps) (simp add: n)
qed

lemma fence_pair:
  assumes a: "\<not> prefix [BQ, BQ] t"
  shows "\<not> prefix [BQ, BQ] (replace_all rx_fence [] t)"
proof (cases t)
  case Nil
  then show ?thesis by (simp add: replace_all_delete_Nil)
next
  case t: (Cons x u)
  from a have "\<not> prefix [BQ, BQ, BQ] (x # u)"
    unfolding t prefix2 prefix3 by blast
  then have e: "replace_all rx_fence [] t = x # replace_all rx_fence [] u"
    unfolding t by (rule fence_Cons)
  show ?thesis
  proof (cases "x = BQ")
    case False
    then show ?thesis unfolding e prefix2 by simp
  next
    case True
    show ?thesis
    proof (cases u)
      case Nil
      then show ?thesis unfolding e prefix2 by (simp add: replace_all_delete_Nil)
    next
      case (Cons y w)
      with a t True have y: "y \<noteq> BQ" unfolding prefix2 by simp
      then have "\<not> prefix [BQ, BQ, BQ] (y # w)" unfolding prefix3 by simp
      then have "replace_all rx_fence [] (y # w) = y # replace_all rx_fence [] w"
        by (rule fence_Cons)
      with Cons y show ?thesis unfolding e prefix2 by simp
    qed
  qed
qed

lemma fences_removed: "no_match rx_fence (replace_all rx_fence [] s)"
proof (induction s rule: length_induct)
  case (1 s)
  show ?case
  proof (cases "prefix [BQ, BQ, BQ] s")
    case True
    then obtain t where s: "s = BQ # BQ # BQ # t" unfolding prefix3 by blast
    let ?rest = "case t of [] \<Rightarrow> [] | y # ys \<Rightarrow> if y = LF then ys else y # ys"
    have l: "length ?rest < length s"
      unfolding s by (simp split: list.split)
    have "exec_at rx_fence s = Some (Map.empty, ?rest)"
      unfolding s by (simp add: exec_at_fence)
    with l have "replace_all rx_fence [] s = replace_all rx_fence [] ?rest"
      by (subst replace_all.simps) simp
    with 1 l show ?thesis by simp
  next
    case False
    show ?thesis
    proof (cases s)
      case Nil
      then show ?thesis by (simp add: replace_all_delete_Nil exec_at_fence_None)
    next
      case (Cons x t)
      from False have e: "replace_all rx_fence [] s = x # replace_all rx_fence [] t"
        unfolding Cons by (rule fence_Cons)
      have "\<not> prefix [BQ, BQ, BQ] (x # replace_all rx_fence [] t)"
      proof (cases "x = BQ")
        case False
        then show ?thesis unfolding prefix3 by simp
      next
        case True
        with False Cons have "\<not> prefix [BQ, BQ] t" unfolding prefix2 prefix3 by simp
        then have "\<not> prefix [BQ, BQ] (replace_all rx_fence [] t)" by (rule fence_pair)
        then show ?thesis unfolding prefix2 prefix3 by simp
      qed
      then have "exec_at rx_fence (x # replace_all rx_fence [] t) = None"
        by (rule exec_at_fence_None)
      moreover from 1 Cons have "no_match rx_fence (replace_all rx_fence [] t)" by simp
      ultimately show ?thesis by (simp add: e)
    qed
  qed
qed

lemma exec_at_fence_json_None: "exec_at rx_fence s = None \<Longrightarrow> exec_at rx_fence_json s = None"
proof (cases "exec_at rx_fence_json s")
  case None
  then show ?thesis by simp
next
  case (Some st)
  assume n: "exec_at rx_fence s = None"
  obtain c rest where "st = (c, rest)" by (cases st)
  with Some have "prefix [BQ, BQ, BQ] s" by (intro exec_at_fence_json) simp
  with n show ?thesis by (simp add: exec_at_fence)
qed

lemma no_fence_no_fence_json: "no_match rx_fence s \<Longrightarrow> no_match rx_fence_json s"
  by (induction s) (simp_all add: exec_at_fence_json_None)

lemma strip_markup_idempotent: "strip_markup (strip_markup s) = strip_markup s"
proof -
  let ?r = "replace_all rx_fence [] (replace_all rx_fence_json [] (replace_all rx_tag [] s))"
  have r: "strip_markup s = ?r"
    by (simp add: strip_markup_def)
  have t: "no_match rx_tag ?r"
    by (intro tags_stay_removed tags_removed exec_at_fence_head exec_at_fence_json_head)
  have f: "no_match rx_fence ?r"
    by (rule fences_removed)
  then have j: "no_match rx_fence_json ?r"
    by (rule no_fence_no_fence_json)
  have "strip_markup ?r = replace_all rx_fence [] (replace_all rx_fence_json [] (replace_all rx_tag [] ?r))"
    by (simp add: strip_markup_def)
  also have "\<dots> = ?r"
    by (simp only: replace_all_no_match [OF t] replace_all_no_match [OF j] replace_all_no_match [OF f])
  finally show ?thesis
    by (simp only: r)
qed

text \<open>
  C5, as the code has it. Three of the five stages of the pass are idempotent on every
  string: the stage that strips tags and fences (lines 192-193), the truncation to the
  text from the first \<open>{\<close> to the last \<open>}\<close> (lines 196-201) and the whitespace stage (lines
  218-219). The stage that rewrites quotes (lines 206-209) and the stage that rewrites
  commas (lines 211-216) are not idempotent, and neither is the pass as a whole; and the
  pass can turn valid JSON (a string value that holds apostrophes) into text that does
  not parse.
\<close>

theorem repair_stages_idempotent:
  "strip_markup (strip_markup s) = strip_markup s
   \<and> truncate_braces (truncate_braces s) = truncate_braces s
   \<and> clean_whitespace (clean_whitespace s) = clean_whitespace s"
  by (intro conjI strip_markup_idempotent truncate_braces_idempotent clean_whitespace_idempotent)

lemma c5_once: \<open>repairJSON ''{"a":"Tom's and Ann's"}'' = ''{"a":"Tom's and Ann"s"}''\<close>
  by code_simp

lemma c5_twice: \<open>repairJSON ''{"a":"Tom's and Ann"s"}'' = ''{"a":"Tom"s and Ann"s"}''\<close>
  by code_simp

lemma c5_valid: \<open>JSON_parse ''{"a":"Tom's and Ann's"}'' = Inr (JObj [(''a'', JStr ''Tom's and Ann's'')])\<close>
  by code_simp

lemma c5_corrupt: \<open>JSON_parse ''{"a":"Tom's and Ann"s"}'' = Inl ''Unexpected token s in JSON at position 20''\<close>
  by code_simp

lemma c5_quotes_once: \<open>fix_quotes ''{"a":"Tom's and Ann's"}'' = ''{"a":"Tom's and Ann"s"}''\<close>
  by code_simp

lemma c5_quotes_twice: \<open>fix_quotes ''{"a":"Tom's and Ann"s"}'' = ''{"a":"Tom"s and Ann"s"}''\<close>
  by code_simp

lemma c5_commas_once: \<open>fix_commas ''{"a":1,,}'' = ''{"a":1,}''\<close>
  by code_simp

lemma c5_commas_twice: \<open>fix_commas ''{"a":1,}'' = ''{"a":1}''\<close>
  by code_simp

lemma c5_commas_input: \<open>JSON_parse ''{"a":1,,}'' = Inl ''Unexpected token , in JSON at position 7''\<close>
  by code_simp

lemma c5_commas_pass_once: \<open>repairJSON ''{"a":1,,}'' = ''{"a":1,}''\<close>
  by code_simp

lemma c5_commas_pass_twice: \<open>repairJSON ''{"a":1,}'' = ''{"a":1}''\<close>
  by code_simp

theorem repair_not_idempotent_counterexample:
  \<open>repairJSON (repairJSON ''{"a":"Tom's and Ann's"}'') \<noteq> repairJSON ''{"a":"Tom's and Ann's"}''
   \<and> fix_quotes (fix_quotes ''{"a":"Tom's and Ann's"}'') \<noteq> fix_quotes ''{"a":"Tom's and Ann's"}''
   \<and> JSON_parse ''{"a":"Tom's and Ann's"}'' = Inr (JObj [(''a'', JStr ''Tom's and Ann's'')])
   \<and> JSON_parse (repairJSON ''{"a":"Tom's and Ann's"}'') = Inl ''Unexpected token s in JSON at position 20''
   \<and> fix_commas (fix_commas ''{"a":1,,}'') \<noteq> fix_commas ''{"a":1,,}''
   \<and> JSON_parse ''{"a":1,,}'' = Inl ''Unexpected token , in JSON at position 7''
   \<and> repairJSON (repairJSON ''{"a":1,,}'') \<noteq> repairJSON ''{"a":1,,}''\<close>
proof -
  have a: "repairJSON (repairJSON ''{\"a\":\"Tom's and Ann's\"}'') \<noteq> repairJSON ''{\"a\":\"Tom's and Ann's\"}''"
    by (simp only: c5_once c5_twice) simp
  have b: "fix_quotes (fix_quotes ''{\"a\":\"Tom's and Ann's\"}'') \<noteq> fix_quotes ''{\"a\":\"Tom's and Ann's\"}''"
    by (simp only: c5_quotes_once c5_quotes_twice) simp
  have c: "JSON_parse (repairJSON ''{\"a\":\"Tom's and Ann's\"}'') = Inl ''Unexpected token s in JSON at position 20''"
    by (simp only: c5_once c5_corrupt)
  have d: "fix_commas (fix_commas ''{\"a\":1,,}'') \<noteq> fix_commas ''{\"a\":1,,}''"
    by (simp only: c5_commas_once c5_commas_twice) simp
  have e: "repairJSON (repairJSON ''{\"a\":1,,}'') \<noteq> repairJSON ''{\"a\":1,,}''"
    by (simp only: c5_commas_pass_once c5_commas_pass_twice) simp
  from a b c5_valid c d c5_commas_input e show ?thesis by (intro conjI)
qed

section \<open>Properties of the task breakdown route\<close>

lemma hours_is_number:
  "\<exists>m e. (case x of Some (JNum m e) \<Rightarrow> JNum m e | _ \<Rightarrow> JNum 4 0) = JNum m e"
  by (auto split: option.split json.split)

lemma skills_is_array:
  "\<exists>vs. (case x of Some (JArr vs) \<Rightarrow> JArr vs | _ \<Rightarrow> JArr [JStr ''General'']) = JArr vs"
  by (auto split: option.split json.split)

lemma validate_task_record:
  assumes "validate_task index task = Inr v"
  shows "task_record v"
proof -
  obtain m e where h: "(case get task ''estimatedHours'' of Some (JNum m e) \<Rightarrow> JNum m e | _ \<Rightarrow> JNum 4 0)
      = JNum m e"
    using hours_is_number [of "get task ''estimatedHours''"] by (elim exE)
  obtain vs where s: "(case get task ''requiredSkills'' of Some (JArr vs) \<Rightarrow> JArr vs
      | _ \<Rightarrow> JArr [JStr ''General'']) = JArr vs"
    using skills_is_array [of "get task ''requiredSkills''"] by (elim exE)
  from assms have "v = JObj
        [(''id'', or_else (get task ''id'') (JStr (''task_'' @ show_nat (index + 1)))),
         (''name'', or_else (get task ''name'') (JStr (''Task '' @ show_nat (index + 1)))),
         (''description'', or_else (get task ''description'') (JStr ''No description provided'')),
         (''estimatedHours'', JNum m e),
         (''requiredSkills'', JArr vs)]"
    unfolding validate_task_def h s by (simp split: if_splits)
  then show ?thesis by simp
qed

lemma map_tasks_records: "map_tasks index tasks = Inr vs \<Longrightarrow> list_all task_record vs"
proof (induction tasks arbitrary: index vs)
  case Nil
  then show ?case by simp
next
  case (Cons task tasks)
  from Cons.prems obtain v vs' where v: "validate_task index task = Inr v"
    and r: "map_tasks (index + 1) tasks = Inr vs'" and vs: "vs = v # vs'"
    by (auto split: sum.splits)
  from validate_task_record [OF v] Cons.IH [OF r] vs show ?case by simp
qed

lemma reviewTask_record: "validate_task 0 reviewTask = Inr reviewTask"
  by (simp add: validate_task_def reviewTask_def or_else_def)

lemma fallbackTasks_records: "list_all task_record fallbackTasks"
  by (simp add: fallbackTasks_def)

lemma emergencyFallbackTasks_records: "list_all task_record emergencyFallbackTasks"
  by (simp add: emergencyFallbackTasks_def)

lemma validated_records: "validated parse text = Inr vs \<Longrightarrow> list_all task_record vs"
  by (auto simp: validated_def map_tasks_records split: sum.splits)

lemma breakdown_tasks_error:
  "documents = Some d \<Longrightarrow> truthy d \<Longrightarrow>
   snd (getGroqCompletion parse stringify completion) = Inl err \<Longrightarrow>
   breakdown_tasks parse stringify documents completion =
     \<lparr>status = 200,
      body = JObj [(''tasks'', JArr emergencyFallbackTasks), (''error'', JStr (message err))]\<rparr>"
  by (simp add: breakdown_tasks_def)

lemma breakdown_tasks_caught:
  "documents = Some d \<Longrightarrow> truthy d \<Longrightarrow>
   snd (getGroqCompletion parse stringify completion) = Inr text \<Longrightarrow>
   validated parse text = Inl err \<Longrightarrow>
   breakdown_tasks parse stringify documents completion =
     \<lparr>status = 200, body = JObj [(''tasks'', JArr fallbackTasks)]\<rparr>"
  by (simp add: breakdown_tasks_def)

lemma breakdown_tasks_validated:
  "documents = Some d \<Longrightarrow> truthy d \<Longrightarrow>
   snd (getGroqCompletion parse stringify completion) = Inr text \<Longrightarrow>
   validated parse text = Inr vs \<Longrightarrow>
   breakdown_tasks parse stringify documents completion =
     \<lparr>status = 200, body = JObj [(''tasks'', JArr vs)]\<rparr>"
  by (simp add: breakdown_tasks_def)

lemma validate_task_defaults:
  assumes "task \<noteq> JNull"
  shows "\<exists>i n dd h sk.
      validate_task index task =
        Inr (JObj [(''id'', i), (''name'', n), (''description'', dd), (''estimatedHours'', h),
                   (''requiredSkills'', sk)])
      \<and> (get task ''id'' = None \<longrightarrow> i = JStr (''task_'' @ show_nat (index + 1)))
      \<and> (get task ''name'' = None \<longrightarrow> n = JStr (''Task '' @ show_nat (index + 1)))
      \<and> (get task ''description'' = None \<longrightarrow> dd = JStr ''No description provided'')
      \<and> (\<forall>v. get task ''id'' = Some v \<and> truthy v \<longrightarrow> i = v)
      \<and> (\<forall>v. get task ''name'' = Some v \<and> truthy v \<longrightarrow> n = v)
      \<and> (\<forall>v. get task ''description'' = Some v \<and> truthy v \<longrightarrow> dd = v)
      \<and> (\<forall>m e. get task ''estimatedHours'' = Some (JNum m e) \<longrightarrow> h = JNum m e)
      \<and> ((\<forall>m e. get task ''estimatedHours'' \<noteq> Some (JNum m e)) \<longrightarrow> h = JNum 4 0)
      \<and> (\<forall>vs. get task ''requiredSkills'' = Some (JArr vs) \<longrightarrow> sk = JArr vs)
      \<and> ((\<forall>vs. get task ''requiredSkills'' \<noteq> Some (JArr vs)) \<longrightarrow> sk = JArr [JStr ''General''])
      \<and> (\<forall>v. get task ''id'' = Some v \<and> \<not> truthy v \<longrightarrow> i = JStr (''task_'' @ show_nat (index + 1)))
      \<and> (\<forall>v. get task ''name'' = Some v \<and> \<not> truthy v \<longrightarrow> n = JStr (''Task '' @ show_nat (index + 1)))
      \<and> (\<forall>v. get task ''description'' = Some v \<and> \<not> truthy v \<longrightarrow> dd = JStr ''No description provided'')"
proof -
  let ?i = "or_else (get task ''id'') (JStr (''task_'' @ show_nat (index + 1)))"
  let ?n = "or_else (get task ''name'') (JStr (''Task '' @ show_nat (index + 1)))"
  let ?d = "or_else (get task ''description'') (JStr ''No description provided'')"
  let ?h = "case get task ''estimatedHours'' of Some (JNum m e) \<Rightarrow> JNum m e | _ \<Rightarrow> JNum 4 0"
  let ?s = "case get task ''requiredSkills'' of Some (JArr vs) \<Rightarrow> JArr vs | _ \<Rightarrow> JArr [JStr ''General'']"
  have v: "validate_task index task =
        Inr (JObj [(''id'', ?i), (''name'', ?n), (''description'', ?d), (''estimatedHours'', ?h),
                   (''requiredSkills'', ?s)])"
    using assms by (simp add: validate_task_def)
  have i: "get task ''id'' = None \<longrightarrow> ?i = JStr (''task_'' @ show_nat (index + 1))"
    by (simp add: or_else_def)
  have n: "get task ''name'' = None \<longrightarrow> ?n = JStr (''Task '' @ show_nat (index + 1))"
    by (simp add: or_else_def)
  have d: "get task ''description'' = None \<longrightarrow> ?d = JStr ''No description provided''"
    by (simp add: or_else_def)
  have i': "\<forall>v. get task ''id'' = Some v \<and> truthy v \<longrightarrow> ?i = v"
    by (simp add: or_else_def)
  have n': "\<forall>v. get task ''name'' = Some v \<and> truthy v \<longrightarrow> ?n = v"
    by (simp add: or_else_def)
  have d': "\<forall>v. get task ''description'' = Some v \<and> truthy v \<longrightarrow> ?d = v"
    by (simp add: or_else_def)
  have h: "\<forall>m e. get task ''estimatedHours'' = Some (JNum m e) \<longrightarrow> ?h = JNum m e"
    by simp
  have h': "(\<forall>m e. get task ''estimatedHours'' \<noteq> Some (JNum m e)) \<longrightarrow> ?h = JNum 4 0"
    by (auto split: option.split json.split)
  have s: "\<forall>vs. get task ''requiredSkills'' = Some (JArr vs) \<longrightarrow> ?s = JArr vs"
    by simp
  have s': "(\<forall>vs. get task ''requiredSkills'' \<noteq> Some (JArr vs)) \<longrightarrow> ?s = JArr [JStr ''General'']"
    by (auto split: option.split json.split)
  have i'': "\<forall>v. get task ''id'' = Some v \<and> \<not> truthy v \<longrightarrow> ?i = JStr (''task_'' @ show_nat (index + 1))"
    by (simp add: or_else_def)
  have n'': "\<forall>v. get task ''name'' = Some v \<and> \<not> truthy v \<longrightarrow> ?n = JStr (''Task '' @ show_nat (index + 1))"
    by (simp add: or_else_def)
  have d'': "\<forall>v. get task ''description'' = Some v \<and> \<not> truthy v \<longrightarrow> ?d = JStr ''No description provided''"
    by (simp add: or_else_def)
  from v i n d i' n' d' h h' s s' i'' n'' d'' show ?thesis
    by - (rule exI [of _ ?i], rule exI [of _ ?n], rule exI [of _ ?d], rule exI [of _ ?h],
          rule exI [of _ ?s], (intro conjI; assumption))
qed

lemma validate_task_null: "\<exists>err. validate_task index JNull = Inl err"
  by (simp add: validate_task_def)

lemma validate_task_value: "task \<noteq> JNull \<Longrightarrow> \<exists>v. validate_task index task = Inr v"
  by (simp add: validate_task_def)

lemma map_tasks_null: "JNull \<in> set tasks \<Longrightarrow> \<exists>err. map_tasks index tasks = Inl err"
proof (induction tasks arbitrary: index)
  case Nil
  then show ?case by simp
next
  case (Cons task tasks)
  show ?case
  proof (cases "task = JNull")
    case True
    with validate_task_null [of index] show ?thesis by auto
  next
    case False
    with Cons.prems have "JNull \<in> set tasks" by simp
    from Cons.IH [OF this, of "index + 1"] validate_task_value [OF False, of index]
    show ?thesis by auto
  qed
qed

lemma map_tasks_values:
  "JNull \<notin> set tasks \<Longrightarrow>
   \<exists>vs. map_tasks index tasks = Inr vs \<and> length vs = length tasks
      \<and> (\<forall>k<length tasks. validate_task (index + k) (tasks ! k) = Inr (vs ! k))"
proof (induction tasks arbitrary: index)
  case Nil
  then show ?case by simp
next
  case (Cons task tasks)
  from Cons.prems have t: "task \<noteq> JNull" and r: "JNull \<notin> set tasks" by auto
  from validate_task_value [OF t, of index] obtain v where v: "validate_task index task = Inr v" ..
  from Cons.IH [OF r, of "index + 1"] obtain vs where vs: "map_tasks (index + 1) tasks = Inr vs"
    and l: "length vs = length tasks"
    and each: "\<forall>k<length tasks. validate_task (index + 1 + k) (tasks ! k) = Inr (vs ! k)"
    by blast
  have m: "map_tasks index (task # tasks) = Inr (v # vs)"
    using v vs by simp
  have "\<forall>k<length (task # tasks). validate_task (index + k) ((task # tasks) ! k) = Inr ((v # vs) ! k)"
  proof (intro allI impI)
    fix k assume k: "k < length (task # tasks)"
    show "validate_task (index + k) ((task # tasks) ! k) = Inr ((v # vs) ! k)"
    proof (cases k)
      case 0
      with v show ?thesis by simp
    next
      case (Suc k')
      with k have "k' < length tasks" by simp
      with each have "validate_task (index + 1 + k') (tasks ! k') = Inr (vs ! k')" by blast
      with Suc show ?thesis by simp
    qed
  qed
  with m l show ?case by simp
qed

lemma map_tasks_Nil: "map_tasks index tasks = Inr [] \<longleftrightarrow> tasks = []"
  by (cases tasks) (auto split: sum.splits)

lemma select_tasks_array: "select_tasks (JArr ts) = Inr ts"
  by (simp add: select_tasks_def)

lemma select_tasks_property:
  "get result ''tasks'' = Some (JArr ts) \<Longrightarrow> select_tasks result = Inr ts"
  by (cases result) (simp_all add: select_tasks_def)

lemma select_tasks_null: "\<exists>err. select_tasks JNull = Inl err"
  by (simp add: select_tasks_def)

lemma select_tasks_other:
  "result \<noteq> JNull \<Longrightarrow> \<forall>ts. result \<noteq> JArr ts \<Longrightarrow> \<forall>ts. get result ''tasks'' \<noteq> Some (JArr ts) \<Longrightarrow>
   select_tasks result = Inr [reviewTask]"
  by (cases result) (auto simp: select_tasks_def split: option.splits json.splits)

lemma select_tasks_Nil:
  "select_tasks result = Inr [] \<longleftrightarrow> result = JArr [] \<or> get result ''tasks'' = Some (JArr [])"
  by (cases result) (auto simp: select_tasks_def split: option.splits json.splits)

lemma validated_Nil:
  "validated parse text = Inr [] \<longleftrightarrow>
     (\<exists>result. parse text = Inr result \<and> (result = JArr [] \<or> get result ''tasks'' = Some (JArr [])))"
proof (cases "parse text")
  case (Inl dg)
  then show ?thesis by (simp add: validated_def)
next
  case (Inr result)
  show ?thesis
  proof (cases "select_tasks result")
    case (Inl err)
    with Inr select_tasks_Nil [of result] show ?thesis by (simp add: validated_def)
  next
    case sel: (Inr ts)
    with Inr select_tasks_Nil [of result] map_tasks_Nil [of 0 ts] show ?thesis
      by (simp add: validated_def)
  qed
qed

lemma validated_selected:
  assumes "parse ctext = Inr result" and "select_tasks result = Inr ts"
  shows "if JNull \<in> set ts then \<exists>err. validated parse ctext = Inl err
         else \<exists>vs. validated parse ctext = Inr vs \<and> length vs = length ts
                \<and> (\<forall>k<length ts. validate_task k (ts ! k) = Inr (vs ! k))"
proof (cases "JNull \<in> set ts")
  case True
  from map_tasks_null [OF True, of 0] assms True show ?thesis by (simp add: validated_def)
next
  case False
  from map_tasks_values [OF False, of 0] assms False show ?thesis by (simp add: validated_def)
qed

text \<open>
  C10, as the code has it. Whenever the request carries documents, the route answers
  with status 200 and a \<open>tasks\<close> array whose records all have the five fields, with
  \<open>estimatedHours\<close> a number and \<open>requiredSkills\<close> an array. A task that is not \<open>null\<close> is
  mapped to a record in which an absent or falsy \<open>id\<close>, \<open>name\<close> or \<open>description\<close> takes its
  default (\<open>task_\<close> or \<open>Task \<close> followed by the index plus one, \<open>No description provided\<close>) and a
  truthy value of any type is kept as it is; \<open>estimatedHours\<close> is kept when it is a number
  and is 4 otherwise; \<open>requiredSkills\<close> is kept when it is an array and is the array of the
  one string \<open>General\<close> otherwise.
  The tasks mapped are the parsed completion when it is an array, its property \<open>tasks\<close>
  when that is an array, and the single review task otherwise; the answer has one record
  for each of them, so it is empty exactly when the model returned an empty list.
  When \<open>getGroqCompletion\<close> throws, the tasks are the fixed emergency array, and when the
  inner block throws (a parse error, or a \<open>null\<close> result or task) they are the fixed
  fallback array; both arrays are non-empty.
\<close>

theorem breakdown_tasks_records:
  assumes "documents = Some d" and "truthy d"
  shows "status (breakdown_tasks parse stringify documents completion) = 200
   \<and> (\<exists>ts rest. body (breakdown_tasks parse stringify documents completion)
                    = JObj ((''tasks'', JArr ts) # rest)
                 \<and> list_all task_record ts)
   \<and> (\<forall>err. snd (getGroqCompletion parse stringify completion) = Inl err \<longrightarrow>
          body (breakdown_tasks parse stringify documents completion)
            = JObj [(''tasks'', JArr emergencyFallbackTasks), (''error'', JStr (message err))])
   \<and> (\<forall>text err. snd (getGroqCompletion parse stringify completion) = Inr text
                   \<and> validated parse text = Inl err \<longrightarrow>
          body (breakdown_tasks parse stringify documents completion)
            = JObj [(''tasks'', JArr fallbackTasks)])
   \<and> (\<forall>text vs. snd (getGroqCompletion parse stringify completion) = Inr text
                  \<and> validated parse text = Inr vs \<longrightarrow>
          body (breakdown_tasks parse stringify documents completion) = JObj [(''tasks'', JArr vs)])
   \<and> emergencyFallbackTasks \<noteq> [] \<and> fallbackTasks \<noteq> []
   \<and> (\<forall>index task. task \<noteq> JNull \<longrightarrow>
        (\<exists>i n dd h sk.
           validate_task index task =
             Inr (JObj [(''id'', i), (''name'', n), (''description'', dd), (''estimatedHours'', h),
                        (''requiredSkills'', sk)])
           \<and> (get task ''id'' = None \<longrightarrow> i = JStr (''task_'' @ show_nat (index + 1)))
           \<and> (get task ''name'' = None \<longrightarrow> n = JStr (''Task '' @ show_nat (index + 1)))
           \<and> (get task ''description'' = None \<longrightarrow> dd = JStr ''No description provided'')
           \<and> (\<forall>v. get task ''id'' = Some v \<and> truthy v \<longrightarrow> i = v)
           \<and> (\<forall>v. get task ''name'' = Some v \<and> truthy v \<longrightarrow> n = v)
           \<and> (\<forall>v. get task ''description'' = Some v \<and> truthy v \<longrightarrow> dd = v)
           \<and> (\<forall>m e. get task ''estimatedHours'' = Some (JNum m e) \<longrightarrow> h = JNum m e)
           \<and> ((\<forall>m e. get task ''estimatedHours'' \<noteq> Some (JNum m e)) \<longrightarrow> h = JNum 4 0)
           \<and> (\<forall>vs. get task ''requiredSkills'' = Some (JArr vs) \<longrightarrow> sk = JArr vs)
           \<and> ((\<forall>vs. get task ''requiredSkills'' \<noteq> Some (JArr vs)) \<longrightarrow> sk = JArr [JStr ''General''])
           \<and> (\<forall>v. get task ''id'' = Some v \<and> \<not> truthy v \<longrightarrow> i = JStr (''task_'' @ show_nat (index + 1)))
           \<and> (\<forall>v. get task ''name'' = Some v \<and> \<not> truthy v \<longrightarrow> n = JStr (''Task '' @ show_nat (index + 1)))
           \<and> (\<forall>v. get task ''description'' = Some v \<and> \<not> truthy v
                  \<longrightarrow> dd = JStr ''No description provided'')))
   \<and> (\<forall>text result ts.
          snd (getGroqCompletion parse stringify completion) = Inr text \<and> parse text = Inr result
          \<and> (result = JArr ts \<or> get result ''tasks'' = Some (JArr ts)) \<and> JNull \<notin> set ts \<longrightarrow>
          (\<exists>vs. body (breakdown_tasks parse stringify documents completion) = JObj [(''tasks'', JArr vs)]
              \<and> length vs = length ts
              \<and> (\<forall>k<length ts. validate_task k (ts ! k) = Inr (vs ! k))))
   \<and> (\<forall>text result ts.
          snd (getGroqCompletion parse stringify completion) = Inr text \<and> parse text = Inr result
          \<and> (result = JArr ts \<or> get result ''tasks'' = Some (JArr ts)) \<and> JNull \<in> set ts \<longrightarrow>
          body (breakdown_tasks parse stringify documents completion) = JObj [(''tasks'', JArr fallbackTasks)])
   \<and> (\<forall>text result.
          snd (getGroqCompletion parse stringify completion) = Inr text \<and> parse text = Inr result
          \<and> result \<noteq> JNull \<and> (\<forall>ts. result \<noteq> JArr ts) \<and> (\<forall>ts. get result ''tasks'' \<noteq> Some (JArr ts)) \<longrightarrow>
          body (breakdown_tasks parse stringify documents completion) = JObj [(''tasks'', JArr [reviewTask])])
   \<and> (\<forall>text. snd (getGroqCompletion parse stringify completion) = Inr text
          \<and> (parse text = Inr JNull \<or> (\<exists>dg. parse text = Inl dg)) \<longrightarrow>
          body (breakdown_tasks parse stringify documents completion) = JObj [(''tasks'', JArr fallbackTasks)])
   \<and> ((\<exists>rest. body (breakdown_tasks parse stringify documents completion)
                 = JObj ((''tasks'', JArr []) # rest))
        \<longleftrightarrow> (\<exists>text result. snd (getGroqCompletion parse stringify completion) = Inr text
               \<and> parse text = Inr result
               \<and> (result = JArr [] \<or> get result ''tasks'' = Some (JArr []))))"
  (is "_ \<and> _ \<and> _ \<and> _ \<and> _ \<and> _ \<and> _ \<and> ?defaults \<and> ?mapped \<and> ?nulls \<and> ?other \<and> ?failed \<and> ?empty")
proof -
  let ?r = "breakdown_tasks parse stringify documents completion"
  have shape: "status ?r = 200
     \<and> (\<exists>ts rest. body ?r = JObj ((''tasks'', JArr ts) # rest) \<and> list_all task_record ts)"
  proof (cases "snd (getGroqCompletion parse stringify completion)")
    case (Inl err)
    from breakdown_tasks_error [OF assms Inl] emergencyFallbackTasks_records
    show ?thesis by simp
  next
    case (Inr ctext)
    show ?thesis
    proof (cases "validated parse ctext")
      case (Inl err)
      from breakdown_tasks_caught [OF assms Inr Inl] fallbackTasks_records
      show ?thesis by simp
    next
      case vs: (Inr vs)
      from breakdown_tasks_validated [OF assms Inr vs] validated_records [OF vs]
      show ?thesis by simp
    qed
  qed
  have e: "\<forall>err. snd (getGroqCompletion parse stringify completion) = Inl err \<longrightarrow>
          body ?r = JObj [(''tasks'', JArr emergencyFallbackTasks), (''error'', JStr (message err))]"
  proof (intro allI impI)
    fix err assume a: "snd (getGroqCompletion parse stringify completion) = Inl err"
    from breakdown_tasks_error [OF assms a]
    show "body ?r = JObj [(''tasks'', JArr emergencyFallbackTasks), (''error'', JStr (message err))]"
      by simp
  qed
  have c: "\<forall>text err. snd (getGroqCompletion parse stringify completion) = Inr text
                   \<and> validated parse text = Inl err \<longrightarrow>
          body ?r = JObj [(''tasks'', JArr fallbackTasks)]"
  proof (intro allI impI)
    fix ctext err assume "snd (getGroqCompletion parse stringify completion) = Inr ctext
                   \<and> validated parse ctext = Inl err"
    then have a: "snd (getGroqCompletion parse stringify completion) = Inr ctext"
      and b: "validated parse ctext = Inl err" by simp_all
    from breakdown_tasks_caught [OF assms a b]
    show "body ?r = JObj [(''tasks'', JArr fallbackTasks)]" by simp
  qed
  have v: "\<forall>text vs. snd (getGroqCompletion parse stringify completion) = Inr text
                  \<and> validated parse text = Inr vs \<longrightarrow>
          body ?r = JObj [(''tasks'', JArr vs)]"
  proof (intro allI impI)
    fix ctext vs assume "snd (getGroqCompletion parse stringify completion) = Inr ctext
                  \<and> validated parse ctext = Inr vs"
    then have a: "snd (getGroqCompletion parse stringify completion) = Inr ctext"
      and b: "validated parse ctext = Inr vs" by simp_all
    from breakdown_tasks_validated [OF assms a b]
    show "body ?r = JObj [(''tasks'', JArr vs)]" by simp
  qed
  have ne1: "emergencyFallbackTasks \<noteq> []"
    by (simp add: emergencyFallbackTasks_def)
  have ne2: "fallbackTasks \<noteq> []"
    by (simp add: fallbackTasks_def)
  have dflt: ?defaults
    by (intro allI impI) (rule validate_task_defaults)
  have sel: "select_tasks result = Inr ts"
    if "result = JArr ts \<or> get result ''tasks'' = Some (JArr ts)" for result ts
    using that select_tasks_array [of ts] select_tasks_property [of result ts] by blast
  have mapped: ?mapped
  proof (intro allI impI)
    fix ctext result ts
    assume h: "snd (getGroqCompletion parse stringify completion) = Inr ctext \<and> parse ctext = Inr result
          \<and> (result = JArr ts \<or> get result ''tasks'' = Some (JArr ts)) \<and> JNull \<notin> set ts"
    then have a: "snd (getGroqCompletion parse stringify completion) = Inr ctext"
      and p: "parse ctext = Inr result" and n: "JNull \<notin> set ts"
      and s: "select_tasks result = Inr ts"
      using sel by blast+
    from validated_selected [where parse = parse and ctext = ctext, OF p s] n obtain vs where vs: "validated parse ctext = Inr vs"
      and l: "length vs = length ts"
      and each: "\<forall>k<length ts. validate_task k (ts ! k) = Inr (vs ! k)"
      by auto
    from breakdown_tasks_validated [OF assms a vs] have "body ?r = JObj [(''tasks'', JArr vs)]"
      by simp
    with l each show "\<exists>vs. body ?r = JObj [(''tasks'', JArr vs)] \<and> length vs = length ts
              \<and> (\<forall>k<length ts. validate_task k (ts ! k) = Inr (vs ! k))"
      by blast
  qed
  have nulls: ?nulls
  proof (intro allI impI)
    fix ctext result ts
    assume h: "snd (getGroqCompletion parse stringify completion) = Inr ctext \<and> parse ctext = Inr result
          \<and> (result = JArr ts \<or> get result ''tasks'' = Some (JArr ts)) \<and> JNull \<in> set ts"
    then have a: "snd (getGroqCompletion parse stringify completion) = Inr ctext"
      and p: "parse ctext = Inr result" and n: "JNull \<in> set ts"
      and s: "select_tasks result = Inr ts"
      using sel by blast+
    from validated_selected [where parse = parse and ctext = ctext, OF p s] n obtain err where "validated parse ctext = Inl err"
      by auto
    from breakdown_tasks_caught [OF assms a this]
    show "body ?r = JObj [(''tasks'', JArr fallbackTasks)]" by simp
  qed
  have other: ?other
  proof (intro allI impI)
    fix ctext result
    assume h: "snd (getGroqCompletion parse stringify completion) = Inr ctext \<and> parse ctext = Inr result
          \<and> result \<noteq> JNull \<and> (\<forall>ts. result \<noteq> JArr ts) \<and> (\<forall>ts. get result ''tasks'' \<noteq> Some (JArr ts))"
    then have a: "snd (getGroqCompletion parse stringify completion) = Inr ctext"
      and p: "parse ctext = Inr result" by simp_all
    from h have s: "select_tasks result = Inr [reviewTask]"
      by (intro select_tasks_other) simp_all
    have "validated parse ctext = Inr [reviewTask]"
      by (simp add: validated_def p s reviewTask_record)
    from breakdown_tasks_validated [OF assms a this]
    show "body ?r = JObj [(''tasks'', JArr [reviewTask])]" by simp
  qed
  have failed: ?failed
  proof (intro allI impI)
    fix ctext
    assume h: "snd (getGroqCompletion parse stringify completion) = Inr ctext
          \<and> (parse ctext = Inr JNull \<or> (\<exists>dg. parse ctext = Inl dg))"
    then have a: "snd (getGroqCompletion parse stringify completion) = Inr ctext" by simp
    from h select_tasks_null obtain err where "validated parse ctext = Inl err"
      by (auto simp: validated_def)
    from breakdown_tasks_caught [OF assms a this]
    show "body ?r = JObj [(''tasks'', JArr fallbackTasks)]" by simp
  qed
  have empty: ?empty
  proof
    assume "\<exists>rest. body ?r = JObj ((''tasks'', JArr []) # rest)"
    then obtain rest where b: "body ?r = JObj ((''tasks'', JArr []) # rest)" ..
    show "\<exists>text result. snd (getGroqCompletion parse stringify completion) = Inr text
               \<and> parse text = Inr result
               \<and> (result = JArr [] \<or> get result ''tasks'' = Some (JArr []))"
    proof (cases "snd (getGroqCompletion parse stringify completion)")
      case (Inl err)
      from breakdown_tasks_error [OF assms Inl] b ne1 show ?thesis by simp
    next
      case (Inr ctext)
      show ?thesis
      proof (cases "validated parse ctext")
        case (Inl err)
        from breakdown_tasks_caught [OF assms Inr Inl] b ne2 show ?thesis by simp
      next
        case vs: (Inr vs)
        from breakdown_tasks_validated [OF assms Inr vs] b have "vs = []" by simp
        with vs have "validated parse ctext = Inr []" by simp
        then obtain result where "parse ctext = Inr result"
          and "result = JArr [] \<or> get result ''tasks'' = Some (JArr [])"
          unfolding validated_Nil by blast
        with Inr show ?thesis by blast
      qed
    qed
  next
    assume "\<exists>text result. snd (getGroqCompletion parse stringify completion) = Inr text
               \<and> parse text = Inr result
               \<and> (result = JArr [] \<or> get result ''tasks'' = Some (JArr []))"
    then obtain ctext result where a: "snd (getGroqCompletion parse stringify completion) = Inr ctext"
      and "parse ctext = Inr result"
      and "result = JArr [] \<or> get result ''tasks'' = Some (JArr [])"
      by blast
    then have "validated parse ctext = Inr []"
      unfolding validated_Nil by blast
    from breakdown_tasks_validated [OF assms a this]
    show "\<exists>rest. body ?r = JObj ((''tasks'', JArr []) # rest)" by simp
  qed
  from shape have st: "status ?r = 200"
    and sh: "\<exists>ts rest. body ?r = JObj ((''tasks'', JArr ts) # rest) \<and> list_all task_record ts"
    by simp_all
  from st sh e c v ne1 ne2 dflt mapped nulls other failed empty show ?thesis
    by - (intro conjI; assumption)
qed

lemma getGroqCompletion_direct:
  "parse (trim raw) = Inr v \<Longrightarrow>
   snd (getGroqCompletion parse stringify (Inr raw)) = Inr (stringify v)"
  by (simp add: getGroqCompletion_content parseCompletion_direct)

lemma w10_parse: \<open>JSON_parse (trim ''[{"name":"Build API","estimatedHours":"3"},{"id":7,"requiredSkills":["SQL"]}]'')
    = Inr (JArr [JObj [(''name'', JStr ''Build API''), (''estimatedHours'', JStr ''3'')],
                 JObj [(''id'', JNum 7 0), (''requiredSkills'', JArr [JStr ''SQL''])]])\<close>
  by code_simp

lemma w10_text: \<open>JSON_stringify (JArr [JObj [(''name'', JStr ''Build API''), (''estimatedHours'', JStr ''3'')],
                 JObj [(''id'', JNum 7 0), (''requiredSkills'', JArr [JStr ''SQL''])]])
    = ''[{"name":"Build API","estimatedHours":"3"},{"id":7,"requiredSkills":["SQL"]}]''\<close>
  by code_simp

lemma w10_validated: \<open>validated JSON_parse ''[{"name":"Build API","estimatedHours":"3"},{"id":7,"requiredSkills":["SQL"]}]''
    = Inr [JObj [(''id'', JStr ''task_1''), (''name'', JStr ''Build API''),
                 (''description'', JStr ''No description provided''),
                 (''estimatedHours'', JNum 4 0), (''requiredSkills'', JArr [JStr ''General''])],
           JObj [(''id'', JNum 7 0), (''name'', JStr ''Task 2''),
                 (''description'', JStr ''No description provided''),
                 (''estimatedHours'', JNum 4 0), (''requiredSkills'', JArr [JStr ''SQL''])]]\<close>
  by code_simp

lemma w10_three: "show_nat 3 = ''3''"
  by code_simp

theorem breakdown_tasks_records_witness:
  \<open>truthy (JObj [(''srs'', JStr ''Login page'')])
   \<and> snd (getGroqCompletion JSON_parse JSON_stringify
            (Inr ''[{"name":"Build API","estimatedHours":"3"},{"id":7,"requiredSkills":["SQL"]}]''))
       = Inr ''[{"name":"Build API","estimatedHours":"3"},{"id":7,"requiredSkills":["SQL"]}]''
   \<and> status (breakdown_tasks JSON_parse JSON_stringify (Some (JObj [(''srs'', JStr ''Login page'')]))
         (Inr ''[{"name":"Build API","estimatedHours":"3"},{"id":7,"requiredSkills":["SQL"]}]'')) = 200
   \<and> body (breakdown_tasks JSON_parse JSON_stringify (Some (JObj [(''srs'', JStr ''Login page'')]))
         (Inr ''[{"name":"Build API","estimatedHours":"3"},{"id":7,"requiredSkills":["SQL"]}]''))
       = JObj [(''tasks'', JArr
           [JObj [(''id'', JStr ''task_1''), (''name'', JStr ''Build API''),
                  (''description'', JStr ''No description provided''),
                  (''estimatedHours'', JNum 4 0), (''requiredSkills'', JArr [JStr ''General''])],
            JObj [(''id'', JNum 7 0), (''name'', JStr ''Task 2''),
                  (''description'', JStr ''No description provided''),
                  (''estimatedHours'', JNum 4 0), (''requiredSkills'', JArr [JStr ''SQL''])]])]
   \<and> snd (getGroqCompletion JSON_parse JSON_stringify (Inl (Error ''timeout'')))
       = Inl (Error ''Groq API Error: timeout'')
   \<and> body (breakdown_tasks JSON_parse JSON_stringify (Some (JObj [(''srs'', JStr ''Login page'')]))
         (Inl (Error ''timeout'')))
       = JObj [(''tasks'', JArr emergencyFallbackTasks), (''error'', JStr ''Groq API Error: timeout'')]
   \<and> JObj [(''id'', JNum 0 0), (''name'', JStr []), (''estimatedHours'', JNum 25 (- 1))] \<noteq> JNull
   \<and> validate_task 2 (JObj [(''id'', JNum 0 0), (''name'', JStr []), (''estimatedHours'', JNum 25 (- 1))])
       = Inr (JObj [(''id'', JStr ''task_3''), (''name'', JStr ''Task 3''),
                    (''description'', JStr ''No description provided''),
                    (''estimatedHours'', JNum 25 (- 1)), (''requiredSkills'', JArr [JStr ''General''])])\<close>
proof -
  have d: "Some (JObj [(''srs'', JStr ''Login page'')]) = Some (JObj [(''srs'', JStr ''Login page'')])"
    by (rule refl)
  have t: "truthy (JObj [(''srs'', JStr ''Login page'')])" by simp
  note ok = breakdown_tasks_records [OF d t, of JSON_parse JSON_stringify
    "Inr ''[{\"name\":\"Build API\",\"estimatedHours\":\"3\"},{\"id\":7,\"requiredSkills\":[\"SQL\"]}]''"]
  note ko = breakdown_tasks_records [OF d t, of JSON_parse JSON_stringify "Inl (Error ''timeout'')"]
  have g: "snd (getGroqCompletion JSON_parse JSON_stringify
            (Inr ''[{\"name\":\"Build API\",\"estimatedHours\":\"3\"},{\"id\":7,\"requiredSkills\":[\"SQL\"]}]''))
       = Inr ''[{\"name\":\"Build API\",\"estimatedHours\":\"3\"},{\"id\":7,\"requiredSkills\":[\"SQL\"]}]''"
    using getGroqCompletion_direct [where parse = JSON_parse and stringify = JSON_stringify, OF w10_parse] by (simp only: w10_text)
  from ok have s: "status (breakdown_tasks JSON_parse JSON_stringify (Some (JObj [(''srs'', JStr ''Login page'')]))
         (Inr ''[{\"name\":\"Build API\",\"estimatedHours\":\"3\"},{\"id\":7,\"requiredSkills\":[\"SQL\"]}]'')) = 200"
    by (rule conjunct1)
  from ok have "\<forall>text vs. snd (getGroqCompletion JSON_parse JSON_stringify
            (Inr ''[{\"name\":\"Build API\",\"estimatedHours\":\"3\"},{\"id\":7,\"requiredSkills\":[\"SQL\"]}]'')) = Inr text
          \<and> validated JSON_parse text = Inr vs \<longrightarrow>
         body (breakdown_tasks JSON_parse JSON_stringify (Some (JObj [(''srs'', JStr ''Login page'')]))
         (Inr ''[{\"name\":\"Build API\",\"estimatedHours\":\"3\"},{\"id\":7,\"requiredSkills\":[\"SQL\"]}]''))
           = JObj [(''tasks'', JArr vs)]"
    by (elim conjE)
  with g w10_validated
  have b: "body (breakdown_tasks JSON_parse JSON_stringify (Some (JObj [(''srs'', JStr ''Login page'')]))
         (Inr ''[{\"name\":\"Build API\",\"estimatedHours\":\"3\"},{\"id\":7,\"requiredSkills\":[\"SQL\"]}]''))
       = JObj [(''tasks'', JArr
           [JObj [(''id'', JStr ''task_1''), (''name'', JStr ''Build API''),
                  (''description'', JStr ''No description provided''),
                  (''estimatedHours'', JNum 4 0), (''requiredSkills'', JArr [JStr ''General''])],
            JObj [(''id'', JNum 7 0), (''name'', JStr ''Task 2''),
                  (''description'', JStr ''No description provided''),
                  (''estimatedHours'', JNum 4 0), (''requiredSkills'', JArr [JStr ''SQL''])]])]"
    by blast
  have e: "snd (getGroqCompletion JSON_parse JSON_stringify (Inl (Error ''timeout'')))
       = Inl (Error ''Groq API Error: timeout'')"
    by (simp add: getGroqCompletion_def)
  from ko have "\<forall>err. snd (getGroqCompletion JSON_parse JSON_stringify (Inl (Error ''timeout''))) = Inl err \<longrightarrow>
          body (breakdown_tasks JSON_parse JSON_stringify (Some (JObj [(''srs'', JStr ''Login page'')]))
                 (Inl (Error ''timeout'')))
            = JObj [(''tasks'', JArr emergencyFallbackTasks), (''error'', JStr (message err))]"
    by (elim conjE)
  with e
  have f: "body (breakdown_tasks JSON_parse JSON_stringify (Some (JObj [(''srs'', JStr ''Login page'')]))
         (Inl (Error ''timeout'')))
       = JObj [(''tasks'', JArr emergencyFallbackTasks),
               (''error'', JStr (message (Error ''Groq API Error: timeout'')))]"
    by blast
  then have f': "body (breakdown_tasks JSON_parse JSON_stringify (Some (JObj [(''srs'', JStr ''Login page'')]))
         (Inl (Error ''timeout'')))
       = JObj [(''tasks'', JArr emergencyFallbackTasks), (''error'', JStr ''Groq API Error: timeout'')]"
    by (simp only: exn.sel)
  let ?task = "JObj [(''id'', JNum 0 0), (''name'', JStr []), (''estimatedHours'', JNum 25 (- 1))]"
  have n: "?task \<noteq> JNull" by simp
  from ko have "\<forall>index task. task \<noteq> JNull \<longrightarrow>
        (\<exists>i n dd h sk.
           validate_task index task =
             Inr (JObj [(''id'', i), (''name'', n), (''description'', dd), (''estimatedHours'', h),
                        (''requiredSkills'', sk)])
           \<and> (get task ''id'' = None \<longrightarrow> i = JStr (''task_'' @ show_nat (index + 1)))
           \<and> (get task ''name'' = None \<longrightarrow> n = JStr (''Task '' @ show_nat (index + 1)))
           \<and> (get task ''description'' = None \<longrightarrow> dd = JStr ''No description provided'')
           \<and> (\<forall>v. get task ''id'' = Some v \<and> truthy v \<longrightarrow> i = v)
           \<and> (\<forall>v. get task ''name'' = Some v \<and> truthy v \<longrightarrow> n = v)
           \<and> (\<forall>v. get task ''description'' = Some v \<and> truthy v \<longrightarrow> dd = v)
           \<and> (\<forall>m e. get task ''estimatedHours'' = Some (JNum m e) \<longrightarrow> h = JNum m e)
           \<and> ((\<forall>m e. get task ''estimatedHours'' \<noteq> Some (JNum m e)) \<longrightarrow> h = JNum 4 0)
           \<and> (\<forall>vs. get task ''requiredSkills'' = Some (JArr vs) \<longrightarrow> sk = JArr vs)
           \<and> ((\<forall>vs. get task ''requiredSkills'' \<noteq> Some (JArr vs)) \<longrightarrow> sk = JArr [JStr ''General''])
           \<and> (\<forall>v. get task ''id'' = Some v \<and> \<not> truthy v \<longrightarrow> i = JStr (''task_'' @ show_nat (index + 1)))
           \<and> (\<forall>v. get task ''name'' = Some v \<and> \<not> truthy v \<longrightarrow> n = JStr (''Task '' @ show_nat (index + 1)))
           \<and> (\<forall>v. get task ''description'' = Some v \<and> \<not> truthy v
                  \<longrightarrow> dd = JStr ''No description provided''))"
    by (elim conjE)
  from this [rule_format, OF n, of 2] obtain i n dd h sk where
    r: "validate_task 2 ?task =
             Inr (JObj [(''id'', i), (''name'', n), (''description'', dd), (''estimatedHours'', h),
                        (''requiredSkills'', sk)])"
    and i: "\<forall>v. get ?task ''id'' = Some v \<and> \<not> truthy v \<longrightarrow> i = JStr (''task_'' @ show_nat (2 + 1))"
    and nn: "\<forall>v. get ?task ''name'' = Some v \<and> \<not> truthy v \<longrightarrow> n = JStr (''Task '' @ show_nat (2 + 1))"
    and dd: "get ?task ''description'' = None \<longrightarrow> dd = JStr ''No description provided''"
    and h: "\<forall>m e. get ?task ''estimatedHours'' = Some (JNum m e) \<longrightarrow> h = JNum m e"
    and sk: "(\<forall>vs. get ?task ''requiredSkills'' \<noteq> Some (JArr vs)) \<longrightarrow> sk = JArr [JStr ''General'']"
    by (elim exE conjE) (rule that; assumption)
  from i have i': "i = JStr ''task_3''" by (simp add: w10_three)
  from nn have n': "n = JStr ''Task 3''" by (simp add: w10_three)
  from dd have d': "dd = JStr ''No description provided''" by simp
  from h have h': "h = JNum 25 (- 1)" by simp
  from sk have s': "sk = JArr [JStr ''General'']" by simp
  from r have v: "validate_task 2 ?task
       = Inr (JObj [(''id'', JStr ''task_3''), (''name'', JStr ''Task 3''),
                    (''description'', JStr ''No description provided''),
                    (''estimatedHours'', JNum 25 (- 1)), (''requiredSkills'', JArr [JStr ''General''])])"
    unfolding i' n' d' h' s' .
  from t g s b e f' n v show ?thesis by (intro conjI)
qed

lemma c10_parse: \<open>JSON_parse (trim ''[{"name": 42}]'') = Inr (JArr [JObj [(''name'', JNum 42 0)]])\<close>
  by code_simp

lemma c10_text: \<open>JSON_stringify (JArr [JObj [(''name'', JNum 42 0)]]) = ''[{"name":42}]''\<close>
  by code_simp

lemma c10_validated: \<open>validated JSON_parse ''[{"name":42}]''
    = Inr [JObj [(''id'', JStr ''task_1''), (''name'', JNum 42 0),
                 (''description'', JStr ''No description provided''),
                 (''estimatedHours'', JNum 4 0), (''requiredSkills'', JArr [JStr ''General''])]]\<close>
  by code_simp

theorem task_name_type_counterexample:
  \<open>breakdown_tasks JSON_parse JSON_stringify (Some (JObj [(''srs'', JStr ''Login page'')]))
      (Inr ''[{"name": 42}]'')
     = \<lparr>status = 200,
        body = JObj [(''tasks'', JArr
          [JObj [(''id'', JStr ''task_1''), (''name'', JNum 42 0),
                 (''description'', JStr ''No description provided''),
                 (''estimatedHours'', JNum 4 0), (''requiredSkills'', JArr [JStr ''General''])]])]\<rparr>
   \<and> \<not> typed_task
       (JObj [(''id'', JStr ''task_1''), (''name'', JNum 42 0),
              (''description'', JStr ''No description provided''),
              (''estimatedHours'', JNum 4 0), (''requiredSkills'', JArr [JStr ''General''])])\<close>
proof -
  have d: "Some (JObj [(''srs'', JStr ''Login page'')]) = Some (JObj [(''srs'', JStr ''Login page'')])"
    by (rule refl)
  have t: "truthy (JObj [(''srs'', JStr ''Login page'')])" by simp
  have g: "snd (getGroqCompletion JSON_parse JSON_stringify (Inr ''[{\"name\": 42}]'')) = Inr ''[{\"name\":42}]''"
    using getGroqCompletion_direct [where parse = JSON_parse and stringify = JSON_stringify, OF c10_parse] by (simp only: c10_text)
  note r = breakdown_tasks_validated [OF d t g c10_validated]
  have n: "\<not> typed_task
       (JObj [(''id'', JStr ''task_1''), (''name'', JNum 42 0),
              (''description'', JStr ''No description provided''),
              (''estimatedHours'', JNum 4 0), (''requiredSkills'', JArr [JStr ''General''])])"
    by simp
  from r n show ?thesis by (rule conjI)
qed

section \<open>Properties of the extraction fallback\<close>



lemma first_parsed_skip:
  "parse m = Inl d \<Longrightarrow> first_parsed parse stringify (m # cands) = first_parsed parse stringify cands"
  by simp

lemma first_parsed_hit:
  "parse m = Inr v \<Longrightarrow> first_parsed parse stringify (m # cands) = Some (stringify v)"
  by simp

lemma parseCompletion_extracted_Some:
  "parse (trim raw) = Inl d1 \<Longrightarrow> parse (repairJSON (trim raw)) = Inl d2 \<Longrightarrow>
   match_all jsonRegex (repairJSON (trim raw)) = cands \<Longrightarrow>
   first_parsed parse stringify cands = Some t \<Longrightarrow>
   snd (parseCompletion parse stringify raw) = Inr t"
  by (simp add: parseCompletion_extracted)

lemma parseCompletion_extracted_None:
  "parse (trim raw) = Inl d1 \<Longrightarrow> parse (repairJSON (trim raw)) = Inl d2 \<Longrightarrow>
   match_all jsonRegex (repairJSON (trim raw)) = cands \<Longrightarrow>
   first_parsed parse stringify cands = None \<Longrightarrow>
   snd (parseCompletion parse stringify raw)
     = Inl (Error (''Failed to parse JSON after all repair attempts: '' @ d2))"
  by (simp add: parseCompletion_extracted)

text \<open>
  C6, as the code has it. When the direct parse and the parse of the repaired text have
  both failed, the candidates are the matches of \<open>jsonRegex\<close> in the repaired text, in
  the order of their appearance, and the function returns the serialisation of the first
  candidate that parses: every candidate before it fails to parse. The pattern admits
  braces nested two levels deep inside a candidate (an object in an object in the
  candidate), not one.
\<close>

theorem extraction_returns_first_parsing_candidate:
  assumes "parse (trim raw) = Inl d1" and "parse (repairJSON (trim raw)) = Inl d2"
  shows "\<forall>t. snd (parseCompletion parse stringify raw) = Inr t \<longleftrightarrow>
           (\<exists>i<length (match_all jsonRegex (repairJSON (trim raw))).
              (\<forall>j<i. \<exists>d. parse (match_all jsonRegex (repairJSON (trim raw)) ! j) = Inl d)
              \<and> (\<exists>v. parse (match_all jsonRegex (repairJSON (trim raw)) ! i) = Inr v
                    \<and> t = stringify v))"
proof
  fix t
  have "snd (parseCompletion parse stringify raw) = Inr t \<longleftrightarrow>
        first_parsed parse stringify (match_all jsonRegex (repairJSON (trim raw))) = Some t"
    using assms by (simp add: parseCompletion_extracted split: option.split)
  then show "snd (parseCompletion parse stringify raw) = Inr t \<longleftrightarrow>
           (\<exists>i<length (match_all jsonRegex (repairJSON (trim raw))).
              (\<forall>j<i. \<exists>d. parse (match_all jsonRegex (repairJSON (trim raw)) ! j) = Inl d)
              \<and> (\<exists>v. parse (match_all jsonRegex (repairJSON (trim raw)) ! i) = Inr v
                    \<and> t = stringify v))"
    by (simp only: first_parsed_Some)
qed

lemma w6_trim: \<open>trim ''junk {"a" 1} {"b":{"c":{"d":1}}} and {"e":2}''
     = ''junk {"a" 1} {"b":{"c":{"d":1}}} and {"e":2}''\<close>
  by code_simp

lemma w6_direct: \<open>JSON_parse ''junk {"a" 1} {"b":{"c":{"d":1}}} and {"e":2}''
     = Inl ''Unexpected token j in JSON at position 0''\<close>
  by code_simp

lemma w6_repair: \<open>repairJSON ''junk {"a" 1} {"b":{"c":{"d":1}}} and {"e":2}''
     = ''{"a" 1},{"b":{"c":{"d":1}}} and {"e":2}''\<close>
  by code_simp

lemma w6_repaired: \<open>JSON_parse ''{"a" 1},{"b":{"c":{"d":1}}} and {"e":2}''
     = Inl ''Unexpected number in JSON at position 5''\<close>
  by code_simp

lemma w6_matches: \<open>match_all jsonRegex ''{"a" 1},{"b":{"c":{"d":1}}} and {"e":2}''
     = [''{"a" 1}'', ''{"b":{"c":{"d":1}}}'', ''{"e":2}'']\<close>
  by code_simp

lemma w6_first: \<open>JSON_parse ''{"a" 1}'' = Inl ''Unexpected number in JSON at position 5''\<close>
  by code_simp

lemma w6_second: \<open>JSON_parse ''{"b":{"c":{"d":1}}}''
     = Inr (JObj [(''b'', JObj [(''c'', JObj [(''d'', JNum 1 0)])])])\<close>
  by code_simp

lemma w6_text: \<open>JSON_stringify (JObj [(''b'', JObj [(''c'', JObj [(''d'', JNum 1 0)])])])
     = ''{"b":{"c":{"d":1}}}''\<close>
  by code_simp

theorem extraction_returns_first_parsing_candidate_witness:
  \<open>JSON_parse (trim ''junk {"a" 1} {"b":{"c":{"d":1}}} and {"e":2}'')
     = Inl ''Unexpected token j in JSON at position 0''
   \<and> JSON_parse (repairJSON (trim ''junk {"a" 1} {"b":{"c":{"d":1}}} and {"e":2}''))
     = Inl ''Unexpected number in JSON at position 5''
   \<and> match_all jsonRegex (repairJSON (trim ''junk {"a" 1} {"b":{"c":{"d":1}}} and {"e":2}''))
     = [''{"a" 1}'', ''{"b":{"c":{"d":1}}}'', ''{"e":2}'']
   \<and> snd (parseCompletion JSON_parse JSON_stringify ''junk {"a" 1} {"b":{"c":{"d":1}}} and {"e":2}'')
     = Inr ''{"b":{"c":{"d":1}}}''\<close>
proof -
  have p1: "JSON_parse (trim ''junk {\"a\" 1} {\"b\":{\"c\":{\"d\":1}}} and {\"e\":2}'')
     = Inl ''Unexpected token j in JSON at position 0''"
    by (simp only: w6_trim w6_direct)
  have p2: "JSON_parse (repairJSON (trim ''junk {\"a\" 1} {\"b\":{\"c\":{\"d\":1}}} and {\"e\":2}''))
     = Inl ''Unexpected number in JSON at position 5''"
    by (simp only: w6_trim w6_repair w6_repaired)
  have m: "match_all jsonRegex (repairJSON (trim ''junk {\"a\" 1} {\"b\":{\"c\":{\"d\":1}}} and {\"e\":2}''))
     = [''{\"a\" 1}'', ''{\"b\":{\"c\":{\"d\":1}}}'', ''{\"e\":2}'']"
    by (simp only: w6_trim w6_repair w6_matches)
  have n0: "\<And>a b c :: string. [a, b, c] ! 0 = a" by simp
  have n1: "\<And>a b c :: string. [a, b, c] ! 1 = b" by simp
  have l: "\<And>a b c :: string. 1 < length [a, b, c]" by simp
  have q: "\<exists>i<length (match_all jsonRegex (repairJSON (trim ''junk {\"a\" 1} {\"b\":{\"c\":{\"d\":1}}} and {\"e\":2}''))).
          (\<forall>j<i. \<exists>d. JSON_parse (match_all jsonRegex (repairJSON (trim ''junk {\"a\" 1} {\"b\":{\"c\":{\"d\":1}}} and {\"e\":2}'')) ! j) = Inl d)
          \<and> (\<exists>v. JSON_parse (match_all jsonRegex (repairJSON (trim ''junk {\"a\" 1} {\"b\":{\"c\":{\"d\":1}}} and {\"e\":2}'')) ! i) = Inr v
                \<and> ''{\"b\":{\"c\":{\"d\":1}}}'' = JSON_stringify v)"
    unfolding m
  proof (intro exI [of _ 1] conjI allI impI)
    show "1 < length [''{\"a\" 1}'', ''{\"b\":{\"c\":{\"d\":1}}}'', ''{\"e\":2}'']" by (rule l)
  next
    fix j :: nat assume "j < 1"
    then have j: "j = 0" by simp
    show "\<exists>d. JSON_parse ([''{\"a\" 1}'', ''{\"b\":{\"c\":{\"d\":1}}}'', ''{\"e\":2}''] ! j) = Inl d"
      unfolding j n0 using w6_first by (rule exI)
  next
    show "\<exists>v. JSON_parse ([''{\"a\" 1}'', ''{\"b\":{\"c\":{\"d\":1}}}'', ''{\"e\":2}''] ! 1) = Inr v
                \<and> ''{\"b\":{\"c\":{\"d\":1}}}'' = JSON_stringify v"
      unfolding n1 using w6_second w6_text [symmetric] by (intro exI conjI)
  qed
  note t = extraction_returns_first_parsing_candidate
    [where parse = JSON_parse and stringify = JSON_stringify, OF p1 p2, rule_format, THEN iffD2]
  have r: "snd (parseCompletion JSON_parse JSON_stringify ''junk {\"a\" 1} {\"b\":{\"c\":{\"d\":1}}} and {\"e\":2}'')
     = Inr ''{\"b\":{\"c\":{\"d\":1}}}''"
    by (rule t) (rule q)
  from p1 p2 m r show ?thesis by (intro conjI)
qed

lemma c6_matches: \<open>match_all oneLevelRegex ''{"a" 1},{"b":{"c":{"d":1}}} and {"e":2}''
     = [''{"a" 1}'', ''{"c":{"d":1}}'', ''{"e":2}'']\<close>
  by code_simp

lemma c6_inner: \<open>JSON_parse ''{"c":{"d":1}}'' = Inr (JObj [(''c'', JObj [(''d'', JNum 1 0)])])\<close>
  by code_simp

lemma c6_text: \<open>JSON_stringify (JObj [(''c'', JObj [(''d'', JNum 1 0)])]) = ''{"c":{"d":1}}''\<close>
  by code_simp

lemma c6_differ: \<open>''{"b":{"c":{"d":1}}}'' \<noteq> ''{"c":{"d":1}}''\<close>
  by simp

theorem one_level_pattern_counterexample:
  \<open>snd (parseCompletion JSON_parse JSON_stringify ''junk {"a" 1} {"b":{"c":{"d":1}}} and {"e":2}'')
     = Inr ''{"b":{"c":{"d":1}}}''
   \<and> match_all oneLevelRegex (repairJSON (trim ''junk {"a" 1} {"b":{"c":{"d":1}}} and {"e":2}''))
     = [''{"a" 1}'', ''{"c":{"d":1}}'', ''{"e":2}'']
   \<and> first_parsed JSON_parse JSON_stringify
        (match_all oneLevelRegex (repairJSON (trim ''junk {"a" 1} {"b":{"c":{"d":1}}} and {"e":2}'')))
     = Some ''{"c":{"d":1}}''
   \<and> ''{"b":{"c":{"d":1}}}'' \<noteq> ''{"c":{"d":1}}''\<close>
proof -
  have p1: "JSON_parse (trim ''junk {\"a\" 1} {\"b\":{\"c\":{\"d\":1}}} and {\"e\":2}'')
     = Inl ''Unexpected token j in JSON at position 0''"
    by (simp only: w6_trim w6_direct)
  have p2: "JSON_parse (repairJSON (trim ''junk {\"a\" 1} {\"b\":{\"c\":{\"d\":1}}} and {\"e\":2}''))
     = Inl ''Unexpected number in JSON at position 5''"
    by (simp only: w6_trim w6_repair w6_repaired)
  have m: "match_all jsonRegex (repairJSON (trim ''junk {\"a\" 1} {\"b\":{\"c\":{\"d\":1}}} and {\"e\":2}''))
     = [''{\"a\" 1}'', ''{\"b\":{\"c\":{\"d\":1}}}'', ''{\"e\":2}'']"
    by (simp only: w6_trim w6_repair w6_matches)
  have "first_parsed JSON_parse JSON_stringify [''{\"a\" 1}'', ''{\"b\":{\"c\":{\"d\":1}}}'', ''{\"e\":2}'']
      = first_parsed JSON_parse JSON_stringify [''{\"b\":{\"c\":{\"d\":1}}}'', ''{\"e\":2}'']"
    by (rule first_parsed_skip [where parse = JSON_parse, OF w6_first])
  also have "\<dots> = Some (JSON_stringify (JObj [(''b'', JObj [(''c'', JObj [(''d'', JNum 1 0)])])]))"
    by (rule first_parsed_hit [where parse = JSON_parse, OF w6_second])
  also have "\<dots> = Some ''{\"b\":{\"c\":{\"d\":1}}}''"
    by (simp only: w6_text)
  finally have f: "first_parsed JSON_parse JSON_stringify [''{\"a\" 1}'', ''{\"b\":{\"c\":{\"d\":1}}}'', ''{\"e\":2}'']
      = Some ''{\"b\":{\"c\":{\"d\":1}}}''" .
  have r: "snd (parseCompletion JSON_parse JSON_stringify ''junk {\"a\" 1} {\"b\":{\"c\":{\"d\":1}}} and {\"e\":2}'')
     = Inr ''{\"b\":{\"c\":{\"d\":1}}}''"
    by (rule parseCompletion_extracted_Some [where parse = JSON_parse, OF p1 p2 m f])
  have m1: "match_all oneLevelRegex (repairJSON (trim ''junk {\"a\" 1} {\"b\":{\"c\":{\"d\":1}}} and {\"e\":2}''))
     = [''{\"a\" 1}'', ''{\"c\":{\"d\":1}}'', ''{\"e\":2}'']"
    by (simp only: w6_trim w6_repair c6_matches)
  have "first_parsed JSON_parse JSON_stringify [''{\"a\" 1}'', ''{\"c\":{\"d\":1}}'', ''{\"e\":2}'']
      = first_parsed JSON_parse JSON_stringify [''{\"c\":{\"d\":1}}'', ''{\"e\":2}'']"
    by (rule first_parsed_skip [where parse = JSON_parse, OF w6_first])
  also have "\<dots> = Some (JSON_stringify (JObj [(''c'', JObj [(''d'', JNum 1 0)])]))"
    by (rule first_parsed_hit [where parse = JSON_parse, OF c6_inner])
  also have "\<dots> = Some ''{\"c\":{\"d\":1}}''"
    by (simp only: c6_text)
  finally have f1: "first_parsed JSON_parse JSON_stringify
        (match_all oneLevelRegex (repairJSON (trim ''junk {\"a\" 1} {\"b\":{\"c\":{\"d\":1}}} and {\"e\":2}'')))
      = Some ''{\"c\":{\"d\":1}}''"
    by (simp only: m1)
  from r m1 f1 c6_differ show ?thesis by blast
qed

section \<open>Comma insertion between adjacent brackets\<close>

lemma c4_obj_obj: \<open>repairJSON ''{"items":[{"a":1} {"b":2}]}'' = ''{"items":[{"a":1},{"b":2}]}''\<close>
  by code_simp

lemma c4_arr_arr: \<open>repairJSON ''{"rows":[[1,2] [3,4]]}'' = ''{"rows":[[1,2,[3,4]]}''\<close>
  by code_simp

lemma c4_arr_obj: \<open>repairJSON ''{"a":[1] {"b":2}}'' = ''{"a":[1,{"b":2}}''\<close>
  by code_simp

lemma c4_obj_arr: \<open>repairJSON ''{"a":{} [1]}'' = ''{"a":{,[1]}''\<close>
  by code_simp

lemma c4_trim: \<open>trim ''{"rows":[[1,2] [3,4]]}'' = ''{"rows":[[1,2] [3,4]]}''\<close>
  by code_simp

lemma c4_direct: \<open>JSON_parse ''{"rows":[[1,2] [3,4]]}'' = Inl ''Unexpected token [ in JSON at position 15''\<close>
  by code_simp

lemma c4_repaired: \<open>JSON_parse ''{"rows":[[1,2,[3,4]]}'' = Inl ''Unexpected token } in JSON at position 20''\<close>
  by code_simp

lemma c4_matches: \<open>match_all jsonRegex ''{"rows":[[1,2,[3,4]]}'' = [''{"rows":[[1,2,[3,4]]}'']\<close>
  by code_simp

lemma c4_message: "''Failed to parse JSON after all repair attempts: '' @ ''Unexpected token } in JSON at position 20''
    = ''Failed to parse JSON after all repair attempts: Unexpected token } in JSON at position 20''"
  by simp

lemma c4_thrown:
  \<open>snd (parseCompletion JSON_parse JSON_stringify ''{"rows":[[1,2] [3,4]]}'')
       = Inl (Error ''Failed to parse JSON after all repair attempts: Unexpected token } in JSON at position 20'')\<close>
proof -
  have p1: "JSON_parse (trim ''{\"rows\":[[1,2] [3,4]]}'') = Inl ''Unexpected token [ in JSON at position 15''"
    by (simp only: c4_trim c4_direct)
  have p2: "JSON_parse (repairJSON (trim ''{\"rows\":[[1,2] [3,4]]}''))
      = Inl ''Unexpected token } in JSON at position 20''"
    by (simp only: c4_trim c4_arr_arr c4_repaired)
  have m: "match_all jsonRegex (repairJSON (trim ''{\"rows\":[[1,2] [3,4]]}'')) = [''{\"rows\":[[1,2,[3,4]]}'']"
    by (simp only: c4_trim c4_arr_arr c4_matches)
  have "first_parsed JSON_parse JSON_stringify [''{\"rows\":[[1,2,[3,4]]}'']
      = first_parsed JSON_parse JSON_stringify []"
    by (rule first_parsed_skip [where parse = JSON_parse, OF c4_repaired])
  then have f: "first_parsed JSON_parse JSON_stringify [''{\"rows\":[[1,2,[3,4]]}''] = None"
    by (simp only: first_parsed.simps)
  have "snd (parseCompletion JSON_parse JSON_stringify ''{\"rows\":[[1,2] [3,4]]}'')
      = Inl (Error (''Failed to parse JSON after all repair attempts: '' @ ''Unexpected token } in JSON at position 20''))"
    by (rule parseCompletion_extracted_None [where parse = JSON_parse, OF p1 p2 m f])
  then show ?thesis by (simp only: c4_message)
qed

text \<open>
  C4. Between \<open>}\<close> and \<open>{\<close> the repair pass inserts the comma and keeps both braces. For
  the three other pairs the replacement text leaves the closing bracket out: \<open>]{\<close> becomes
  \<open>,{\<close>, \<open>}[\<close> becomes \<open>,[\<close> and \<open>][\<close> becomes \<open>,[\<close>, so the repaired text has lost a
  bracket and does not parse.
\<close>

theorem repair_drops_closing_bracket:
  \<open>repairJSON ''{"items":[{"a":1} {"b":2}]}'' = ''{"items":[{"a":1},{"b":2}]}''
   \<and> repairJSON ''{"rows":[[1,2] [3,4]]}'' = ''{"rows":[[1,2,[3,4]]}''
   \<and> repairJSON ''{"a":[1] {"b":2}}'' = ''{"a":[1,{"b":2}}''
   \<and> repairJSON ''{"a":{} [1]}'' = ''{"a":{,[1]}''
   \<and> snd (parseCompletion JSON_parse JSON_stringify ''{"rows":[[1,2] [3,4]]}'')
       = Inl (Error ''Failed to parse JSON after all repair attempts: Unexpected token } in JSON at position 20'')\<close>
  using c4_obj_obj c4_arr_arr c4_arr_obj c4_obj_arr c4_thrown by (intro conjI)

end
